theory Spec2Isabelle
  imports Complex_Main "HOL-Library.Log_Nat"
begin

section \<open>Python numbers\<close>

text \<open>
  The estimators of \<^verbatim>\<open>storage_comparison.py\<close> mix Python's unbounded integers with
  its floats (IEEE 754 binary64, round to nearest, ties to even). A float is modelled by
  the real number it denotes, or one of the three special values. The two zeros are
  identified: Python's comparisons, \<^verbatim>\<open>max\<close> and \<^verbatim>\<open>int\<close> do not tell them apart.
\<close>

datatype pyfloat = Fl real | PInf | NInf | NaN

datatype py_error = OverflowError | ValueError | ZeroDivisionError

datatype pynum = PyInt int | PyFloat pyfloat

definition ebind :: "py_error + 'a \<Rightarrow> ('a \<Rightarrow> py_error + 'b) \<Rightarrow> py_error + 'b" where
  "ebind m f = (case m of Inl e \<Rightarrow> Inl e | Inr x \<Rightarrow> f x)"

subsection \<open>Rounding to binary64\<close>

definition round_half_even :: "real \<Rightarrow> int" where
  "round_half_even x =
     (let n = \<lfloor>x\<rfloor>; d = x - of_int n
      in if d < 1 / 2 then n
         else if 1 / 2 < d then n + 1
         else if even n then n else n + 1)"

text \<open>The binary exponent of a non-zero number: \<open>2 powi binade x \<le> \<bar>x\<bar> < 2 powi (binade x + 1)\<close>.\<close>

definition binade :: "real \<Rightarrow> int" where
  "binade x =
     (let a = \<bar>x\<bar>
      in if 1 \<le> a then bitlen \<lfloor>a\<rfloor> - 1 else - bitlen (\<lceil>1 / a\<rceil> - 1))"

text \<open>
  The unit in the last place of the binade of \<open>x\<close>: 53 significant bits, and the
  subnormal spacing \<open>2 powi (- 1074)\<close> below the smallest normal number.
\<close>

definition ulp :: "real \<Rightarrow> real" where
  "ulp x = 2 powi (max (binade x) (- 1022) - 52)"

definition round_unbounded :: "real \<Rightarrow> real" where
  "round_unbounded x = (if x = 0 then 0 else of_int (round_half_even (x / ulp x)) * ulp x)"

definition round_double :: "real \<Rightarrow> pyfloat" where
  "round_double x =
     (let r = round_unbounded x
      in if 2 powi 1024 \<le> r then PInf
         else if r \<le> - (2 powi 1024) then NInf
         else Fl r)"

subsection \<open>Float operations\<close>

definition float_sign :: "pyfloat \<Rightarrow> real" where
  "float_sign x = (case x of Fl a \<Rightarrow> sgn a | PInf \<Rightarrow> 1 | NInf \<Rightarrow> - 1 | NaN \<Rightarrow> 0)"

definition signed_inf :: "real \<Rightarrow> pyfloat" where
  "signed_inf s = (if s = 0 then NaN else if 0 < s then PInf else NInf)"

fun float_mul :: "pyfloat \<Rightarrow> pyfloat \<Rightarrow> pyfloat" where
  "float_mul (Fl a) (Fl b) = round_double (a * b)"
| "float_mul NaN y = NaN"
| "float_mul x NaN = NaN"
| "float_mul x y = signed_inf (float_sign x * float_sign y)"

fun float_add :: "pyfloat \<Rightarrow> pyfloat \<Rightarrow> pyfloat" where
  "float_add (Fl a) (Fl b) = round_double (a + b)"
| "float_add NaN y = NaN"
| "float_add x NaN = NaN"
| "float_add PInf NInf = NaN"
| "float_add NInf PInf = NaN"
| "float_add PInf y = PInf"
| "float_add NInf y = NInf"
| "float_add x PInf = PInf"
| "float_add x NInf = NInf"

fun float_neg :: "pyfloat \<Rightarrow> pyfloat" where
  "float_neg (Fl a) = Fl (- a)"
| "float_neg PInf = NInf"
| "float_neg NInf = PInf"
| "float_neg NaN = NaN"

definition float_sub :: "pyfloat \<Rightarrow> pyfloat \<Rightarrow> pyfloat" where
  "float_sub x y = float_add x (float_neg y)"

text \<open>Python raises \<^verbatim>\<open>ZeroDivisionError\<close> for a zero divisor, whatever the dividend.\<close>

fun float_div :: "pyfloat \<Rightarrow> pyfloat \<Rightarrow> py_error + pyfloat" where
  "float_div x (Fl b) =
     (if b = 0 then Inl ZeroDivisionError
      else case x of
        Fl a \<Rightarrow> Inr (round_double (a / b))
      | NaN \<Rightarrow> Inr NaN
      | _ \<Rightarrow> Inr (signed_inf (float_sign x * sgn b)))"
| "float_div x NaN = Inr NaN"
| "float_div (Fl a) y = Inr (Fl 0)"
| "float_div x y = Inr NaN"

fun float_gt :: "pyfloat \<Rightarrow> pyfloat \<Rightarrow> bool" where
  "float_gt (Fl a) (Fl b) = (b < a)"
| "float_gt NaN y = False"
| "float_gt x NaN = False"
| "float_gt PInf y = (y \<noteq> PInf)"
| "float_gt x NInf = (x \<noteq> NInf)"
| "float_gt x y = False"

definition float_lt :: "pyfloat \<Rightarrow> pyfloat \<Rightarrow> bool" where
  "float_lt x y = float_gt y x"

definition float_le :: "pyfloat \<Rightarrow> pyfloat \<Rightarrow> bool" where
  "float_le x y = (x \<noteq> NaN \<and> y \<noteq> NaN \<and> \<not> float_gt x y)"

text \<open>The built-in \<^verbatim>\<open>max(a, b)\<close> keeps \<open>a\<close> unless \<^verbatim>\<open>b > a\<close>.\<close>

definition py_max :: "pyfloat \<Rightarrow> pyfloat \<Rightarrow> pyfloat" where
  "py_max a b = (if float_gt b a then b else a)"

subsection \<open>Conversions and mixed arithmetic\<close>

text \<open>
  An integer operand of a float operation is converted first, correctly rounded;
  Python raises \<^verbatim>\<open>OverflowError\<close> when the integer is beyond the float range.
\<close>

definition float_of_int :: "int \<Rightarrow> py_error + pyfloat" where
  "float_of_int i =
     (case round_double (of_int i) of Fl r \<Rightarrow> Inr (Fl r) | _ \<Rightarrow> Inl OverflowError)"

definition float_mul_int :: "pyfloat \<Rightarrow> int \<Rightarrow> py_error + pyfloat" where
  "float_mul_int x i = ebind (float_of_int i) (\<lambda>y. Inr (float_mul x y))"

definition int_mul_float :: "int \<Rightarrow> pyfloat \<Rightarrow> py_error + pyfloat" where
  "int_mul_float i y = ebind (float_of_int i) (\<lambda>x. Inr (float_mul x y))"

definition float_div_int :: "pyfloat \<Rightarrow> int \<Rightarrow> py_error + pyfloat" where
  "float_div_int x i = ebind (float_of_int i) (\<lambda>y. float_div x y)"

fun num_mul :: "pynum \<Rightarrow> pynum \<Rightarrow> py_error + pynum" where
  "num_mul (PyInt a) (PyInt b) = Inr (PyInt (a * b))"
| "num_mul (PyInt a) (PyFloat y) = ebind (int_mul_float a y) (\<lambda>r. Inr (PyFloat r))"
| "num_mul (PyFloat x) (PyInt b) = ebind (float_mul_int x b) (\<lambda>r. Inr (PyFloat r))"
| "num_mul (PyFloat x) (PyFloat y) = Inr (PyFloat (float_mul x y))"

text \<open>\<^verbatim>\<open>int(x)\<close> truncates a float towards zero and refuses infinities and NaN.\<close>

definition trunc_toward_zero :: "real \<Rightarrow> int" where
  "trunc_toward_zero r = (if 0 \<le> r then \<lfloor>r\<rfloor> else \<lceil>r\<rceil>)"

fun py_int :: "pynum \<Rightarrow> py_error + int" where
  "py_int (PyInt i) = Inr i"
| "py_int (PyFloat (Fl r)) = Inr (trunc_toward_zero r)"
| "py_int (PyFloat NaN) = Inl ValueError"
| "py_int (PyFloat x) = Inl OverflowError"

text \<open>Floor division of integers, \<^verbatim>\<open>a // b\<close>.\<close>

definition int_floordiv :: "int \<Rightarrow> int \<Rightarrow> py_error + int" where
  "int_floordiv a b = (if b = 0 then Inl ZeroDivisionError else Inr (a div b))"

section \<open>The estimators\<close>

text \<open>
  Width, height and chunk size are integers, frame rate and duration integers or floats.
  Nothing is validated: an estimator returns its dictionary or raises whatever an
  arithmetic operation raises. The dictionaries are records, with the keys as field names.
\<close>

record estimate =
  total_frames :: int
  frame_size_mb :: pyfloat
  total_peak_mb :: pyfloat

record old_estimate = estimate +
  extracted_frames_mb :: pyfloat
  sbs_frames_mb :: pyfloat

record chunked_estimate = estimate +
  total_chunks :: int
  chunk_size :: int
  peak_chunk_mb :: pyfloat
  max_chunk_videos_mb :: pyfloat

text \<open>
  One step of the model for every operation of the source, in its order of evaluation.
  Three intermediate values have no name in the source: \<open>product\<close> is
  \<^verbatim>\<open>fps * duration_seconds\<close>, \<open>bytes\<close> is \<^verbatim>\<open>width * height * 3 * 1.2\<close> and \<open>doubled\<close> is
  \<^verbatim>\<open>frame_size_mb * 2\<close>.
\<close>

definition estimate_storage_old_approach ::
    "int \<Rightarrow> int \<Rightarrow> pynum \<Rightarrow> pynum \<Rightarrow> py_error + old_estimate" where
  "estimate_storage_old_approach width height fps duration_seconds =
     ebind (num_mul fps duration_seconds) (\<lambda>product.
     ebind (py_int product) (\<lambda>total_frames.
     ebind (int_mul_float (width * height * 3) (round_double 1.2)) (\<lambda>bytes.
     ebind (float_div_int bytes (1024 * 1024)) (\<lambda>frame_size_mb.
     ebind (float_mul_int frame_size_mb total_frames) (\<lambda>extracted_frames_mb.
     ebind (float_mul_int frame_size_mb 2) (\<lambda>doubled.
     ebind (float_mul_int doubled total_frames) (\<lambda>sbs_frames_mb.
     let total_peak_mb = float_add extracted_frames_mb sbs_frames_mb
     in Inr \<lparr>total_frames = total_frames,
             frame_size_mb = frame_size_mb,
             total_peak_mb = total_peak_mb,
             extracted_frames_mb = extracted_frames_mb,
             sbs_frames_mb = sbs_frames_mb\<rparr>)))))))"

definition estimate_storage_chunked_approach ::
    "int \<Rightarrow> int \<Rightarrow> pynum \<Rightarrow> pynum \<Rightarrow> int \<Rightarrow> py_error + chunked_estimate" where
  "estimate_storage_chunked_approach width height fps duration_seconds = (\<lambda>chunk_size.
     ebind (num_mul fps duration_seconds) (\<lambda>product.
     ebind (py_int product) (\<lambda>total_frames.
     ebind (int_floordiv (total_frames + chunk_size - 1) chunk_size) (\<lambda>total_chunks.
     ebind (int_mul_float (width * height * 3) (round_double 1.2)) (\<lambda>bytes.
     ebind (float_div_int bytes (1024 * 1024)) (\<lambda>frame_size_mb.
     ebind (float_mul_int frame_size_mb chunk_size) (\<lambda>chunk_extracted_mb.
     ebind (float_mul_int frame_size_mb 2) (\<lambda>doubled.
     ebind (float_mul_int doubled chunk_size) (\<lambda>chunk_sbs_mb.
     let chunk_video_mb = float_mul chunk_sbs_mb (round_double 0.1);
         peak_chunk_mb = float_add (float_add chunk_extracted_mb chunk_sbs_mb) chunk_video_mb
     in ebind (float_mul_int chunk_video_mb total_chunks) (\<lambda>max_chunk_videos_mb.
     let final_video_mb = max_chunk_videos_mb;
         total_peak_mb = py_max peak_chunk_mb (float_add max_chunk_videos_mb final_video_mb)
     in Inr \<lparr>total_frames = total_frames,
             frame_size_mb = frame_size_mb,
             total_peak_mb = total_peak_mb,
             total_chunks = total_chunks,
             chunk_size = chunk_size,
             peak_chunk_mb = peak_chunk_mb,
             max_chunk_videos_mb = max_chunk_videos_mb\<rparr>))))))))))"

section \<open>The comparison report\<close>

text \<open>
  \<^verbatim>\<open>print_comparison\<close> runs both estimators on four fixed scenarios, the chunked one
  with chunk sizes 100 and 50, and prints the estimates with the percentage saved. The
  model computes the numbers of every scenario, in order; the text layout is left out.
\<close>

definition scenarios :: "(string \<times> int \<times> int \<times> int \<times> int) list" where
  "scenarios =
     [(''1080p 30fps 10min'', 1920, 1080, 30, 600),
      (''4K 30fps 10min'', 3840, 2160, 30, 600),
      (''4K 60fps 10min'', 3840, 2160, 60, 600),
      (''1080p 30fps 1hour'', 1920, 1080, 30, 3600)]"

text \<open>The expression \<^verbatim>\<open>(old - new) / old * 100\<close> of the "Storage savings" lines.\<close>

definition storage_savings :: "pyfloat \<Rightarrow> pyfloat \<Rightarrow> py_error + pyfloat" where
  "storage_savings old_peak new_peak =
     ebind (float_div (float_sub old_peak new_peak) old_peak) (\<lambda>ratio. float_mul_int ratio 100)"

record report_row =
  row_name :: string
  row_old :: old_estimate
  row_new_100 :: chunked_estimate
  row_savings_100 :: pyfloat
  row_new_50 :: chunked_estimate
  row_savings_50 :: pyfloat

fun compare_scenario :: "string \<times> int \<times> int \<times> int \<times> int \<Rightarrow> py_error + report_row" where
  "compare_scenario (name, width, height, fps, duration) =
     ebind (estimate_storage_old_approach width height (PyInt fps) (PyInt duration)) (\<lambda>old.
     ebind (estimate_storage_chunked_approach width height (PyInt fps) (PyInt duration) 100) (\<lambda>new_100.
     ebind (estimate_storage_chunked_approach width height (PyInt fps) (PyInt duration) 50) (\<lambda>new_50.
     ebind (storage_savings (total_peak_mb old) (total_peak_mb new_100)) (\<lambda>savings_100.
     ebind (storage_savings (total_peak_mb old) (total_peak_mb new_50)) (\<lambda>savings_50.
     Inr \<lparr>row_name = name, row_old = old,
             row_new_100 = new_100, row_savings_100 = savings_100,
             row_new_50 = new_50, row_savings_50 = savings_50\<rparr>)))))"

fun report_rows :: "(string \<times> int \<times> int \<times> int \<times> int) list \<Rightarrow> py_error + report_row list" where
  "report_rows [] = Inr []"
| "report_rows (s # ss) =
     ebind (compare_scenario s) (\<lambda>row.
     ebind (report_rows ss) (\<lambda>rows. Inr (row # rows)))"

definition print_comparison :: "py_error + report_row list" where
  "print_comparison = report_rows scenarios"

section \<open>Predicates of the statements\<close>

text \<open>A float lies within \<open>tol\<close> of the real number \<open>c\<close>.\<close>

definition within_tolerance :: "pyfloat \<Rightarrow> real \<Rightarrow> real \<Rightarrow> bool" where
  "within_tolerance x c tol = (case x of Fl a \<Rightarrow> \<bar>a - c\<bar> \<le> tol | _ \<Rightarrow> False)"

text \<open>
  In a row of the report both chunked estimates lie strictly below the old one, and both
  printed savings percentages are strictly positive.
\<close>

definition chunked_saves :: "report_row \<Rightarrow> bool" where
  "chunked_saves row =
     (float_lt (total_peak_mb (row_new_100 row)) (total_peak_mb (row_old row)) \<and>
      float_lt (total_peak_mb (row_new_50 row)) (total_peak_mb (row_old row)) \<and>
      float_gt (row_savings_100 row) (Fl 0) \<and>
      float_gt (row_savings_50 row) (Fl 0))"

text \<open>
  A finite, non-negative number; the floor of a finite number; a number with a given
  value, be it an integer or a float.
\<close>

fun num_nonneg :: "pynum \<Rightarrow> bool" where
  "num_nonneg (PyInt i) = (0 \<le> i)"
| "num_nonneg (PyFloat (Fl a)) = (0 \<le> a)"
| "num_nonneg (PyFloat x) = False"

fun floor_num :: "pynum \<Rightarrow> int option" where
  "floor_num (PyInt i) = Some i"
| "floor_num (PyFloat (Fl a)) = Some \<lfloor>a\<rfloor>"
| "floor_num (PyFloat x) = None"

fun num_is :: "pynum \<Rightarrow> real \<Rightarrow> bool" where
  "num_is (PyInt i) v = (of_int i = v)"
| "num_is (PyFloat (Fl a)) v = (a = v)"
| "num_is (PyFloat x) v = False"

text \<open>A float that is neither negative nor NaN.\<close>

fun float_nonneg :: "pyfloat \<Rightarrow> bool" where
  "float_nonneg (Fl a) = (0 \<le> a)"
| "float_nonneg PInf = True"
| "float_nonneg x = False"

text \<open>
  \<open>x\<close> is what \<open>k\<close> roundings to the nearest float can make of the real number \<open>y\<close>:
  every rounding of a normal number changes it by a factor between \<open>1 - 2\<^sup>-\<^sup>5\<^sup>3\<close> and
  \<open>1 + 2\<^sup>-\<^sup>5\<^sup>3\<close>.
\<close>

definition roundings_apart :: "nat \<Rightarrow> real \<Rightarrow> real \<Rightarrow> bool" where
  "roundings_apart k x y \<longleftrightarrow>
     y * (1 - 1 / 2 ^ 53) ^ k \<le> x \<and> x \<le> y * (1 + 1 / 2 ^ 53) ^ k"

text \<open>
  The formulas of the specification for the chunked estimate, in its own words and with
  its own operand order: \<open>chunkSbsMb = 2 * frameSizeMb * chunkSize\<close>,
  \<open>chunkVideoMb = 0.1 * chunkSbsMb\<close>, \<open>finalVideoMb = maxChunkVideosMb\<close>. The result is
  \<open>(peakChunkMb, maxChunkVideosMb, totalPeakMb)\<close>.
\<close>

definition spec_chunked_peaks :: "pyfloat \<Rightarrow> int \<Rightarrow> int \<Rightarrow> py_error + pyfloat \<times> pyfloat \<times> pyfloat" where
  "spec_chunked_peaks frameSizeMb chunkSize totalChunks =
     ebind (float_mul_int frameSizeMb chunkSize) (\<lambda>chunkExtractedMb.
     ebind (int_mul_float 2 frameSizeMb) (\<lambda>twice.
     ebind (float_mul_int twice chunkSize) (\<lambda>chunkSbsMb.
     let chunkVideoMb = float_mul (round_double 0.1) chunkSbsMb;
         peakChunkMb = float_add (float_add chunkExtractedMb chunkSbsMb) chunkVideoMb
     in ebind (float_mul_int chunkVideoMb totalChunks) (\<lambda>maxChunkVideosMb.
     let finalVideoMb = maxChunkVideosMb
     in Inr (peakChunkMb, maxChunkVideosMb,
             py_max peakChunkMb (float_add maxChunkVideosMb finalVideoMb))))))"

text \<open>Both estimators return, and the chunked peak lies strictly below the old one.\<close>

definition peak_below :: "py_error + chunked_estimate \<Rightarrow> py_error + old_estimate \<Rightarrow> bool" where
  "peak_below new_result old_result =
     (case (new_result, old_result) of
        (Inr new, Inr old) \<Rightarrow> float_lt (total_peak_mb new) (total_peak_mb old)
      | _ \<Rightarrow> False)"

section \<open>Evaluation rules\<close>

text \<open>
  Concrete calls are evaluated by rewriting, arguments first: the congruence rules keep
  the simplifier out of a continuation until the value bound in it is known.
\<close>

lemma bitlen_numeral: "bitlen (numeral k) = bitlen (numeral k div 2) + 1"
  by (subst compute_bitlen) simp

lemma bitlen_one: "bitlen 1 = 1"
  by (subst compute_bitlen) simp

lemma ebind_weak_cong: "m = m' \<Longrightarrow> ebind m f = ebind m' f"
  by simp

lemma ebind_Inr: "ebind (Inr x) f = f x"
  by (simp add: ebind_def)

lemma ebind_Inl: "ebind (Inl e) f = Inl e"
  by (simp add: ebind_def)

lemma ebind_eq_Inr: "ebind m f = Inr y \<longleftrightarrow> (\<exists>x. m = Inr x \<and> f x = Inr y)"
  by (cases m) (simp_all add: ebind_def)

lemmas fl_eval = round_double_def round_unbounded_def ulp_def binade_def round_half_even_def
  bitlen_numeral bitlen_one Let_def

lemmas op_eval = ebind_Inr ebind_Inl float_mul_int_def int_mul_float_def float_div_int_def
  float_of_int_def int_floordiv_def py_max_def trunc_toward_zero_def float_sub_def float_lt_def

lemmas est_eval = estimate_storage_old_approach_def estimate_storage_chunked_approach_def
  op_eval fl_eval

section \<open>Properties of rounding\<close>

text \<open>
  What the claims need of rounding to the nearest float: it is monotone and odd, it
  leaves a representable number alone, it commutes with doubling above the subnormal
  range, and it stays within the float range on arguments of magnitude up to
  \<open>2 powi 1023\<close>.
\<close>

subsection \<open>The binary exponent\<close>

lemma binade_bounds_ge1:
  fixes a :: real
  assumes "1 \<le> a"
  shows "2 powi (bitlen \<lfloor>a\<rfloor> - 1) \<le> a \<and> a < 2 powi (bitlen \<lfloor>a\<rfloor> - 1 + 1)"
proof -
  let ?n = "\<lfloor>a\<rfloor>"
  have n: "0 < ?n" using assms by simp
  have bl: "1 \<le> bitlen ?n" using n by (simp add: bitlen_alt_def)
  from bitlen_bounds [OF n]
  have lo: "2 ^ nat (bitlen ?n - 1) \<le> ?n" and hi: "?n < 2 ^ nat (bitlen ?n)" by auto
  have "(2::real) powi (bitlen ?n - 1) = 2 ^ nat (bitlen ?n - 1)"
    using bl by (simp add: power_int_nonneg_exp)
  also have "\<dots> = of_int (2 ^ nat (bitlen ?n - 1))" by simp
  also have "\<dots> \<le> of_int ?n" using lo by (simp only: of_int_le_iff)
  also have "\<dots> \<le> a" by simp
  finally have L: "2 powi (bitlen ?n - 1) \<le> a" .
  have "?n + 1 \<le> 2 ^ nat (bitlen ?n)" using hi by simp
  then have "(of_int (?n + 1) :: real) \<le> of_int (2 ^ nat (bitlen ?n))"
    by (simp only: of_int_le_iff)
  moreover have "a < of_int (?n + 1)" by linarith
  ultimately have "a < of_int (2 ^ nat (bitlen ?n))" by linarith
  also have "\<dots> = 2 powi (bitlen ?n)" using bl by (simp add: power_int_nonneg_exp)
  finally have "a < 2 powi (bitlen ?n - 1 + 1)" by simp
  with L show ?thesis by simp
qed

lemma binade_bounds_lt1:
  fixes a :: real
  assumes "0 < a" "a < 1"
  shows "2 powi (- bitlen (\<lceil>1 / a\<rceil> - 1)) \<le> a \<and> a < 2 powi (- bitlen (\<lceil>1 / a\<rceil> - 1) + 1)"
proof -
  let ?c = "\<lceil>1 / a\<rceil> - 1"
  have inv: "1 < 1 / a" using assms by simp
  then have c: "0 < ?c" by (simp add: less_ceiling_iff)
  have bl: "1 \<le> bitlen ?c" using c by (simp add: bitlen_alt_def)
  from bitlen_bounds [OF c]
  have lo: "2 ^ nat (bitlen ?c - 1) \<le> ?c" and hi: "?c < 2 ^ nat (bitlen ?c)" by auto
  have "?c + 1 \<le> 2 ^ nat (bitlen ?c)" using hi by simp
  then have "(of_int (?c + 1) :: real) \<le> of_int (2 ^ nat (bitlen ?c))"
    by (simp only: of_int_le_iff)
  moreover have "1 / a \<le> of_int \<lceil>1 / a\<rceil>" by (rule le_of_int_ceiling)
  moreover have "(of_int \<lceil>1 / a\<rceil> :: real) = of_int (?c + 1)" by simp
  moreover have "(of_int (2 ^ nat (bitlen ?c)) :: real) = 2 ^ nat (bitlen ?c)" by simp
  ultimately have "1 / a \<le> 2 ^ nat (bitlen ?c)" by linarith
  then have "1 / a \<le> 2 powi (bitlen ?c)" using bl by (simp add: power_int_nonneg_exp)
  then have "1 \<le> 2 powi (bitlen ?c) * a" using assms by (simp add: field_simps)
  then have L: "2 powi (- bitlen ?c) \<le> a"
    by (simp add: power_int_minus field_simps)
  have "(of_int (2 ^ nat (bitlen ?c - 1)) :: real) \<le> of_int ?c"
    using lo by (simp only: of_int_le_iff)
  moreover have "of_int ?c < 1 / a" by linarith
  moreover have "(of_int (2 ^ nat (bitlen ?c - 1)) :: real) = 2 ^ nat (bitlen ?c - 1)" by simp
  ultimately have "2 ^ nat (bitlen ?c - 1) < 1 / a" by linarith
  then have "2 powi (bitlen ?c - 1) < 1 / a" using bl by (simp add: power_int_nonneg_exp)
  then have "a * 2 powi (bitlen ?c - 1) < 1" using assms by (simp add: field_simps)
  moreover have "(0::real) < 2 powi (bitlen ?c - 1)" by simp
  ultimately have "a < inverse (2 powi (bitlen ?c - 1))" by (simp add: field_simps)
  also have "\<dots> = 2 powi (- (bitlen ?c - 1))" by (rule power_int_minus [symmetric])
  also have "- (bitlen ?c - 1) = - bitlen ?c + 1" by simp
  finally have "a < 2 powi (- bitlen ?c + 1)" .
  with L show ?thesis by simp
qed

lemma binade_bounds:
  assumes "x \<noteq> 0"
  shows "2 powi binade x \<le> \<bar>x\<bar>" and "\<bar>x\<bar> < 2 powi (binade x + 1)"
proof -
  have pos: "0 < \<bar>x\<bar>" using assms by simp
  show "2 powi binade x \<le> \<bar>x\<bar>"
    using binade_bounds_ge1 [of "\<bar>x\<bar>"] binade_bounds_lt1 [of "\<bar>x\<bar>"] pos
    by (cases "1 \<le> \<bar>x\<bar>") (simp_all add: binade_def Let_def)
  show "\<bar>x\<bar> < 2 powi (binade x + 1)"
    using binade_bounds_ge1 [of "\<bar>x\<bar>"] binade_bounds_lt1 [of "\<bar>x\<bar>"] pos
    by (cases "1 \<le> \<bar>x\<bar>") (simp_all add: binade_def Let_def)
qed

lemma binade_unique:
  assumes "2 powi e \<le> \<bar>x\<bar>" "\<bar>x\<bar> < 2 powi (e + 1)"
  shows "binade x = e"
proof -
  have "(0::real) < 2 powi e" by simp
  with assms(1) have "0 < \<bar>x\<bar>" by linarith
  then have nz: "x \<noteq> 0" by simp
  note b = binade_bounds [OF nz]
  have "\<not> binade x < e"
  proof
    assume "binade x < e"
    then have "binade x + 1 \<le> e" by simp
    then have "(2::real) powi (binade x + 1) \<le> 2 powi e" by (intro power_int_increasing) simp_all
    with b(2) assms(1) show False by linarith
  qed
  moreover have "\<not> e < binade x"
  proof
    assume "e < binade x"
    then have "e + 1 \<le> binade x" by simp
    then have "(2::real) powi (e + 1) \<le> 2 powi binade x" by (intro power_int_increasing) simp_all
    with b(1) assms(2) show False by linarith
  qed
  ultimately show ?thesis by linarith
qed

subsection \<open>Rounding to the nearest integer\<close>

lemma round_half_even_of_int: "round_half_even (of_int k) = k"
  by (simp add: round_half_even_def)

lemma round_half_even_bounds:
  "\<lfloor>x\<rfloor> \<le> round_half_even x" "round_half_even x \<le> \<lfloor>x\<rfloor> + 1"
  by (simp_all add: round_half_even_def Let_def)

lemma round_half_even_mono:
  assumes "x \<le> y"
  shows "round_half_even x \<le> round_half_even y"
proof (cases "\<lfloor>x\<rfloor> = \<lfloor>y\<rfloor>")
  case True
  then show ?thesis using assms by (auto simp add: round_half_even_def Let_def)
next
  case False
  have "\<lfloor>x\<rfloor> \<le> \<lfloor>y\<rfloor>" using assms by (rule floor_mono)
  with False have "\<lfloor>x\<rfloor> + 1 \<le> \<lfloor>y\<rfloor>" by simp
  with round_half_even_bounds(2) [of x] round_half_even_bounds(1) [of y]
  show ?thesis by linarith
qed

lemma round_half_even_minus: "round_half_even (- x) = - round_half_even x"
proof (cases "x = of_int \<lfloor>x\<rfloor>")
  case True
  then obtain k where k: "x = of_int k" ..
  have "round_half_even (- of_int k) = round_half_even (of_int (- k))" by simp
  also have "\<dots> = - k" by (rule round_half_even_of_int)
  finally show ?thesis by (simp add: k round_half_even_of_int)
next
  case False
  then have lt: "of_int \<lfloor>x\<rfloor> < x" using of_int_floor_le [of x] by linarith
  have ub: "x < of_int \<lfloor>x\<rfloor> + 1" by linarith
  have fl: "\<lfloor>- x\<rfloor> = - \<lfloor>x\<rfloor> - 1"
  proof (rule floor_unique)
    show "of_int (- \<lfloor>x\<rfloor> - 1) \<le> - x"
      using ub by linarith
    show "- x < of_int (- \<lfloor>x\<rfloor> - 1) + 1"
      using lt by linarith
  qed
  show ?thesis
    using lt ub by (auto simp add: round_half_even_def Let_def fl)
qed

lemma round_half_even_error: "\<bar>of_int (round_half_even x) - x\<bar> \<le> 1 / 2"
proof -
  have "of_int \<lfloor>x\<rfloor> \<le> x" "x < of_int \<lfloor>x\<rfloor> + 1" by linarith+
  then show ?thesis by (auto simp add: round_half_even_def Let_def)
qed

lemma round_half_even_nonneg: "0 \<le> x \<Longrightarrow> 0 \<le> round_half_even x"
  using round_half_even_mono [of 0 x] round_half_even_of_int [of 0] by simp

subsection \<open>Rounding to 53 bits is monotone\<close>

lemma two_powi_add: "(2::real) powi (m + n) = 2 powi m * 2 powi n"
  by (rule power_int_add) simp

lemma two_powi_diff: "(2::real) powi (m - n) = 2 powi m / 2 powi n"
  by (rule power_int_diff) simp

lemma two_powi_nonneg_int: "0 \<le> j \<Longrightarrow> (2::real) powi j = of_int (2 ^ nat j)"
  by (simp add: power_int_nonneg_exp)

lemma two_powi_mono: "m \<le> n \<Longrightarrow> (2::real) powi m \<le> 2 powi n"
  by (rule power_int_increasing) simp_all

lemma two_powi_less_cancel:
  assumes "(2::real) powi m < 2 powi n"
  shows "m < n"
proof (rule ccontr)
  assume "\<not> m < n"
  then have "n \<le> m" by simp
  then have "(2::real) powi n \<le> 2 powi m" by (rule two_powi_mono)
  with assms show False by simp
qed

lemma ulp_pos: "0 < ulp x"
  by (simp add: ulp_def)

lemma binade_minus: "binade (- x) = binade x"
  by (simp add: binade_def)

lemma ulp_minus: "ulp (- x) = ulp x"
  by (simp add: ulp_def binade_minus)

lemma round_unbounded_minus: "round_unbounded (- x) = - round_unbounded x"
  by (simp add: round_unbounded_def ulp_minus round_half_even_minus)

lemma round_unbounded_zero: "round_unbounded 0 = 0"
  by (simp add: round_unbounded_def)

lemma round_unbounded_nonneg:
  assumes "0 \<le> x"
  shows "0 \<le> round_unbounded x"
proof (cases "x = 0")
  case True
  then show ?thesis by (simp add: round_unbounded_def)
next
  case False
  have "0 \<le> x / ulp x" using assms ulp_pos [of x] by simp
  then have "0 \<le> round_half_even (x / ulp x)" by (rule round_half_even_nonneg)
  then show ?thesis using False ulp_pos [of x] by (simp add: round_unbounded_def)
qed

lemma binade_mono:
  assumes "0 < x" "x \<le> y"
  shows "binade x \<le> binade y"
proof (rule ccontr)
  assume "\<not> binade x \<le> binade y"
  then have "binade y + 1 \<le> binade x" by simp
  then have "(2::real) powi (binade y + 1) \<le> 2 powi binade x" by (rule two_powi_mono)
  moreover have "\<bar>y\<bar> < 2 powi (binade y + 1)" using assms by (intro binade_bounds) simp
  moreover have "2 powi binade x \<le> \<bar>x\<bar>" using assms by (intro binade_bounds) simp
  ultimately show False using assms by simp
qed

lemma round_unbounded_le_power:
  assumes "0 < x" "x \<le> 2 powi b" "max (binade x) (- 1022) \<le> b"
  shows "round_unbounded x \<le> 2 powi b"
proof -
  let ?e = "max (binade x) (- 1022) - 52"
  have u: "ulp x = 2 powi ?e" by (simp add: ulp_def)
  have j: "0 \<le> b - ?e" using assms(3) by linarith
  have "2 powi b / ulp x = 2 powi (b - ?e)" by (simp add: u two_powi_diff)
  also have "\<dots> = of_int (2 ^ nat (b - ?e))" using j by (rule two_powi_nonneg_int)
  finally have q: "2 powi b / ulp x = of_int (2 ^ nat (b - ?e))" .
  have "x / ulp x \<le> 2 powi b / ulp x"
    using assms(2) ulp_pos [of x] by (simp add: divide_right_mono)
  then have "round_half_even (x / ulp x) \<le> round_half_even (2 powi b / ulp x)"
    by (rule round_half_even_mono)
  also have "\<dots> = 2 ^ nat (b - ?e)" by (simp only: q round_half_even_of_int)
  finally have "(of_int (round_half_even (x / ulp x)) :: real) \<le> of_int (2 ^ nat (b - ?e))"
    by (simp only: of_int_le_iff)
  then have "of_int (round_half_even (x / ulp x)) * ulp x \<le> of_int (2 ^ nat (b - ?e)) * ulp x"
    using ulp_pos [of x] by (simp only: mult_le_cancel_right_pos)
  also have "of_int (2 ^ nat (b - ?e)) * ulp x = 2 powi b"
    using q ulp_pos [of x] by (simp add: field_simps)
  finally show ?thesis using assms(1) by (simp add: round_unbounded_def)
qed

lemma round_unbounded_ge_power:
  assumes "0 < x" "2 powi b \<le> x" "max (binade x) (- 1022) \<le> b + 52"
  shows "2 powi b \<le> round_unbounded x"
proof -
  let ?e = "max (binade x) (- 1022) - 52"
  have u: "ulp x = 2 powi ?e" by (simp add: ulp_def)
  have j: "0 \<le> b - ?e" using assms(3) by linarith
  have "2 powi b / ulp x = 2 powi (b - ?e)" by (simp add: u two_powi_diff)
  also have "\<dots> = of_int (2 ^ nat (b - ?e))" using j by (rule two_powi_nonneg_int)
  finally have q: "2 powi b / ulp x = of_int (2 ^ nat (b - ?e))" .
  have "2 powi b / ulp x \<le> x / ulp x"
    using assms(2) ulp_pos [of x] by (simp add: divide_right_mono)
  then have "round_half_even (2 powi b / ulp x) \<le> round_half_even (x / ulp x)"
    by (rule round_half_even_mono)
  then have "2 ^ nat (b - ?e) \<le> round_half_even (x / ulp x)"
    by (simp only: q round_half_even_of_int)
  then have "(of_int (2 ^ nat (b - ?e)) :: real) \<le> of_int (round_half_even (x / ulp x))"
    by (simp only: of_int_le_iff)
  then have "of_int (2 ^ nat (b - ?e)) * ulp x \<le> of_int (round_half_even (x / ulp x)) * ulp x"
    using ulp_pos [of x] by (simp only: mult_le_cancel_right_pos)
  moreover have "of_int (2 ^ nat (b - ?e)) * ulp x = 2 powi b"
    using q ulp_pos [of x] by (simp add: field_simps)
  ultimately show ?thesis using assms(1) by (simp add: round_unbounded_def)
qed

lemma round_unbounded_mono_pos:
  assumes "0 < x" "x \<le> y"
  shows "round_unbounded x \<le> round_unbounded y"
proof -
  let ?ex = "max (binade x) (- 1022)" and ?ey = "max (binade y) (- 1022)"
  have ypos: "0 < y" using assms by simp
  have le: "?ex \<le> ?ey" using binade_mono [OF assms] by linarith
  show ?thesis
  proof (cases "?ex = ?ey")
    case True
    then have u: "ulp y = ulp x" by (simp add: ulp_def)
    have "x / ulp x \<le> y / ulp x" using assms(2) ulp_pos [of x] by (simp add: divide_right_mono)
    then have "round_half_even (x / ulp x) \<le> round_half_even (y / ulp x)"
      by (rule round_half_even_mono)
    then have "(of_int (round_half_even (x / ulp x)) :: real) \<le> of_int (round_half_even (y / ulp x))"
      by (simp only: of_int_le_iff)
    then have "of_int (round_half_even (x / ulp x)) * ulp x \<le> of_int (round_half_even (y / ulp x)) * ulp x"
      using ulp_pos [of x] by (simp only: mult_le_cancel_right_pos)
    then show ?thesis using assms(1) ypos by (simp add: round_unbounded_def u)
  next
    case False
    with le have lt: "?ex < ?ey" by linarith
    then have ey: "?ey = binade y" by linarith
    have "binade x + 1 \<le> ?ey" using lt by linarith
    then have "(2::real) powi (binade x + 1) \<le> 2 powi ?ey" by (rule two_powi_mono)
    moreover have "\<bar>x\<bar> < 2 powi (binade x + 1)" using assms(1) by (intro binade_bounds) simp
    ultimately have xb: "x \<le> 2 powi ?ey" using assms(1) by simp
    have "2 powi binade y \<le> \<bar>y\<bar>" using ypos by (intro binade_bounds) simp
    then have yb: "2 powi ?ey \<le> y" using ypos ey by simp
    have "round_unbounded x \<le> 2 powi ?ey"
      using assms(1) xb lt by (intro round_unbounded_le_power) linarith+
    moreover have "2 powi ?ey \<le> round_unbounded y"
      using ypos yb by (intro round_unbounded_ge_power) linarith+
    ultimately show ?thesis by simp
  qed
qed

lemma round_unbounded_mono:
  assumes "x \<le> y"
  shows "round_unbounded x \<le> round_unbounded y"
proof -
  consider "0 < x" | "x \<le> 0" "0 \<le> y" | "y < 0" by linarith
  then show ?thesis
  proof cases
    case 1
    then show ?thesis using assms by (rule round_unbounded_mono_pos)
  next
    case 2
    have "0 \<le> round_unbounded (- x)" using 2(1) by (intro round_unbounded_nonneg) simp
    then have "round_unbounded x \<le> 0" by (simp add: round_unbounded_minus)
    moreover have "0 \<le> round_unbounded y" using 2(2) by (rule round_unbounded_nonneg)
    ultimately show ?thesis by simp
  next
    case 3
    have "round_unbounded (- y) \<le> round_unbounded (- x)"
      using 3 assms by (intro round_unbounded_mono_pos) simp_all
    then show ?thesis by (simp add: round_unbounded_minus)
  qed
qed

subsection \<open>The float range\<close>

lemma round_double_cases:
  obtains (finite) "round_double x = Fl (round_unbounded x)"
      "- (2 powi 1024) < round_unbounded x" "round_unbounded x < 2 powi 1024"
    | (pinf) "round_double x = PInf" "2 powi 1024 \<le> round_unbounded x"
    | (ninf) "round_double x = NInf" "round_unbounded x \<le> - (2 powi 1024)"
proof -
  have "(0::real) < 2 powi 1024" by simp
  then show thesis
    using that by (cases "2 powi 1024 \<le> round_unbounded x";
        cases "round_unbounded x \<le> - (2 powi 1024)")
      (simp_all add: round_double_def Let_def)
qed

lemma round_double_not_NaN: "round_double x \<noteq> NaN"
  by (cases x rule: round_double_cases) simp_all

lemma binade_le:
  assumes "x \<noteq> 0" "\<bar>x\<bar> \<le> 2 powi b"
  shows "binade x \<le> b"
proof (rule ccontr)
  assume "\<not> binade x \<le> b"
  then have "b + 1 \<le> binade x" by simp
  then have "(2::real) powi (b + 1) \<le> 2 powi binade x" by (rule two_powi_mono)
  moreover have "(2::real) powi b < 2 powi (b + 1)" by (rule power_int_strict_increasing) simp_all
  ultimately show False using binade_bounds(1) [OF assms(1)] assms(2) by linarith
qed

lemma round_unbounded_abs_le_power:
  assumes "\<bar>x\<bar> \<le> 2 powi b" "- 1022 \<le> b"
  shows "\<bar>round_unbounded x\<bar> \<le> 2 powi b"
proof -
  have pos: "round_unbounded y \<le> 2 powi b" if "0 < y" "y \<le> 2 powi b" for y
  proof -
    have "binade y \<le> b" using that by (intro binade_le) simp_all
    then have "max (binade y) (- 1022) \<le> b" using assms(2) by simp
    with that show ?thesis by (intro round_unbounded_le_power)
  qed
  consider "0 < x" | "x = 0" | "x < 0" by linarith
  then show ?thesis
  proof cases
    case 1
    then have "0 \<le> round_unbounded x" by (intro round_unbounded_nonneg) simp
    moreover have "round_unbounded x \<le> 2 powi b" using 1 assms(1) by (intro pos) simp_all
    ultimately show ?thesis by simp
  next
    case 2
    then show ?thesis by (simp add: round_unbounded_zero)
  next
    case 3
    then have "0 \<le> round_unbounded (- x)" by (intro round_unbounded_nonneg) simp
    moreover have "round_unbounded (- x) \<le> 2 powi b" using 3 assms(1) by (intro pos) simp_all
    ultimately show ?thesis by (simp add: round_unbounded_minus)
  qed
qed

lemma round_double_finite:
  assumes "\<bar>x\<bar> \<le> 2 powi 1023"
  shows "round_double x = Fl (round_unbounded x)"
proof -
  have "\<bar>round_unbounded x\<bar> \<le> 2 powi 1023"
    using assms by (rule round_unbounded_abs_le_power) simp
  moreover have "(2::real) powi 1023 < 2 powi 1024"
    by (rule power_int_strict_increasing) simp_all
  ultimately have "- (2 powi 1024) < round_unbounded x" "round_unbounded x < 2 powi 1024"
    by linarith+
  then show ?thesis by (simp add: round_double_def Let_def)
qed

lemma float_of_int_returns:
  assumes "\<bar>i\<bar> \<le> 2 ^ 1023"
  shows "float_of_int i = Inr (Fl (round_unbounded (of_int i)))"
proof -
  have "\<bar>real_of_int i\<bar> = real_of_int \<bar>i\<bar>" by simp
  also have "\<dots> \<le> real_of_int (2 ^ 1023)" using assms by (simp only: of_int_le_iff)
  also have "\<dots> = 2 powi 1023" by simp
  finally have "round_double (of_int i) = Fl (round_unbounded (of_int i))"
    by (rule round_double_finite)
  then show ?thesis by (simp add: float_of_int_def)
qed

lemma float_of_int_cases:
  obtains (converted) "float_of_int i = Inr (Fl (round_unbounded (of_int i)))"
  | (overflow) "float_of_int i = Inl OverflowError"
  by (cases "of_int i :: real" rule: round_double_cases) (simp_all add: float_of_int_def)

lemma float_of_int_Inr: "float_of_int i = Inr y \<Longrightarrow> y = Fl (round_unbounded (of_int i))"
  by (cases i rule: float_of_int_cases) simp_all

lemma float_of_int_not_zero_division: "float_of_int i \<noteq> Inl ZeroDivisionError"
  by (cases i rule: float_of_int_cases) simp_all

subsection \<open>Exact results: doubling and representable numbers\<close>

lemma binade_double:
  assumes "x \<noteq> 0"
  shows "binade (2 * x) = binade x + 1"
proof (rule binade_unique)
  note b = binade_bounds [OF assms]
  have "(2::real) powi (binade x + 1) = 2 powi binade x * 2" by (simp add: two_powi_add)
  with b(1) show "2 powi (binade x + 1) \<le> \<bar>2 * x\<bar>" by (simp add: abs_mult)
  have "(2::real) powi (binade x + 1 + 1) = 2 powi (binade x + 1) * 2" by (simp add: two_powi_add)
  with b(2) show "\<bar>2 * x\<bar> < 2 powi (binade x + 1 + 1)" by (simp add: abs_mult)
qed

lemma round_unbounded_double:
  assumes "x = 0 \<or> - 1022 \<le> binade x"
  shows "round_unbounded (2 * x) = 2 * round_unbounded x"
proof (cases "x = 0")
  case True
  then show ?thesis by (simp add: round_unbounded_zero)
next
  case False
  with assms have e: "- 1022 \<le> binade x" by simp
  have "ulp (2 * x) = 2 powi (binade x + 1 - 52)"
    using e by (simp add: ulp_def binade_double [OF False])
  also have "\<dots> = 2 powi (binade x - 52) * 2"
    using two_powi_add [of "binade x - 52" 1] by simp
  also have "2 powi (binade x - 52) = ulp x" using e by (simp add: ulp_def)
  finally have u: "ulp (2 * x) = ulp x * 2" .
  have "2 * x / ulp (2 * x) = x / ulp x" using ulp_pos [of x] by (simp add: u)
  then show ?thesis using False by (simp add: round_unbounded_def u)
qed

lemma round_unbounded_exact_strict:
  assumes "\<bar>m\<bar> < 2 ^ 53" "- 1074 \<le> k"
  shows "round_unbounded (of_int m * 2 powi k) = of_int m * 2 powi k"
proof (cases "m = 0")
  case True
  then show ?thesis by (simp add: round_unbounded_zero)
next
  case False
  let ?r = "real_of_int m * 2 powi k"
  have nz: "?r \<noteq> 0" using False by simp
  have "\<bar>?r\<bar> = real_of_int \<bar>m\<bar> * 2 powi k" by (simp add: abs_mult)
  also have "\<dots> < real_of_int (2 ^ 53) * 2 powi k"
    using assms(1) by (intro mult_strict_right_mono) (simp_all only: of_int_less_iff zero_less_power_int zero_less_numeral)
  also have "\<dots> = 2 powi (53 + k)" by (simp add: two_powi_add)
  finally have "2 powi binade ?r < (2::real) powi (53 + k)"
    using binade_bounds(1) [OF nz] by linarith
  then have "binade ?r < 53 + k" by (rule two_powi_less_cancel)
  then have j: "0 \<le> k - (max (binade ?r) (- 1022) - 52)" using assms(2) by linarith
  let ?e = "max (binade ?r) (- 1022) - 52"
  have u: "ulp ?r = 2 powi ?e" by (simp add: ulp_def)
  have "?r / ulp ?r = real_of_int m * 2 powi (k - ?e)" by (simp add: u two_powi_diff)
  also have "\<dots> = real_of_int (m * 2 ^ nat (k - ?e))"
    using j by (simp add: two_powi_nonneg_int)
  finally have q: "?r / ulp ?r = real_of_int (m * 2 ^ nat (k - ?e))" .
  have "real_of_int (round_half_even (?r / ulp ?r)) * ulp ?r = ?r / ulp ?r * ulp ?r"
    by (simp only: q round_half_even_of_int)
  also have "\<dots> = ?r" using ulp_pos [of ?r] by simp
  finally show ?thesis using nz by (simp add: round_unbounded_def)
qed

lemma round_unbounded_exact:
  assumes "\<bar>m\<bar> \<le> 2 ^ 53" "- 1074 \<le> k"
  shows "round_unbounded (of_int m * 2 powi k) = of_int m * 2 powi k"
proof (cases "\<bar>m\<bar> < 2 ^ 53")
  case True
  then show ?thesis using assms(2) by (rule round_unbounded_exact_strict)
next
  case False
  with assms(1) have m: "\<bar>m\<bar> = 2 ^ 53" by simp
  then have "m = 2 ^ 53 \<or> m = - (2 ^ 53)" by linarith
  then have "m = 2 * (m div 2)" by (elim disjE) simp_all
  then obtain h where h: "m = 2 * h" ..
  with m have hb: "\<bar>h\<bar> < 2 ^ 53" by (simp add: abs_mult)
  have "real_of_int m * 2 powi k = real_of_int h * 2 powi (k + 1)"
    by (simp add: h two_powi_add)
  moreover have "round_unbounded (real_of_int h * 2 powi (k + 1)) = real_of_int h * 2 powi (k + 1)"
    using hb assms(2) by (intro round_unbounded_exact_strict) simp_all
  ultimately show ?thesis by simp
qed

lemma significand_bound: "\<bar>round_half_even (x / ulp x)\<bar> \<le> 2 ^ 53"
proof (cases "x = 0")
  case True
  then show ?thesis using round_half_even_of_int [of 0] by simp
next
  case False
  let ?e = "max (binade x) (- 1022)"
  have "\<bar>x\<bar> < 2 powi (binade x + 1)" using False by (rule binade_bounds)
  also have "\<dots> \<le> 2 powi (?e + 1)" by (rule two_powi_mono) simp
  also have "\<dots> = 2 powi 53 * 2 powi (?e - 52)"
    using two_powi_add [of 53 "?e - 52"] by (simp add: add.commute)
  also have "\<dots> = 2 powi 53 * ulp x" by (simp add: ulp_def)
  finally have "\<bar>x\<bar> / ulp x \<le> 2 powi 53" using ulp_pos [of x] by (simp add: field_simps)
  moreover define y where "y = x / ulp x"
  ultimately have "\<bar>y\<bar> \<le> real_of_int (2 ^ 53)" using ulp_pos [of x] by (simp add: abs_divide)
  then have "y \<le> real_of_int (2 ^ 53)" "- real_of_int (2 ^ 53) \<le> y" by linarith+
  then have b: "y \<le> real_of_int (2 ^ 53)" "real_of_int (- (2 ^ 53)) \<le> y" by simp_all
  have "round_half_even y \<le> round_half_even (real_of_int (2 ^ 53))"
    using b(1) by (rule round_half_even_mono)
  moreover have "round_half_even (real_of_int (- (2 ^ 53))) \<le> round_half_even y"
    using b(2) by (rule round_half_even_mono)
  ultimately have "\<bar>round_half_even y\<bar> \<le> 2 ^ 53"
    by (simp only: round_half_even_of_int)
  then show ?thesis by (simp only: y_def)
qed

lemma round_unbounded_idem: "round_unbounded (round_unbounded x) = round_unbounded x"
proof (cases "x = 0")
  case True
  then show ?thesis by (simp add: round_unbounded_zero)
next
  case False
  have "round_unbounded x =
      real_of_int (round_half_even (x / ulp x)) * 2 powi (max (binade x) (- 1022) - 52)"
    using False by (simp add: round_unbounded_def ulp_def)
  moreover have "round_unbounded
      (real_of_int (round_half_even (x / ulp x)) * 2 powi (max (binade x) (- 1022) - 52)) =
      real_of_int (round_half_even (x / ulp x)) * 2 powi (max (binade x) (- 1022) - 52)"
    using significand_bound [of x] by (rule round_unbounded_exact) simp
  ultimately show ?thesis by simp
qed

lemma round_unbounded_power:
  assumes "- 1074 \<le> b"
  shows "round_unbounded (2 powi b) = 2 powi b"
  using round_unbounded_exact [of 1 b] assms by simp

lemma round_unbounded_abs_ge_power:
  assumes "2 powi b \<le> \<bar>x\<bar>" "- 1074 \<le> b"
  shows "2 powi b \<le> \<bar>round_unbounded x\<bar>"
proof (cases "0 \<le> x")
  case True
  with assms(1) have "2 powi b \<le> x" by simp
  then have "round_unbounded (2 powi b) \<le> round_unbounded x" by (rule round_unbounded_mono)
  then show ?thesis by (simp add: round_unbounded_power [OF assms(2)])
next
  case False
  with assms(1) have "2 powi b \<le> - x" by simp
  then have "round_unbounded (2 powi b) \<le> round_unbounded (- x)" by (rule round_unbounded_mono)
  then show ?thesis by (simp add: round_unbounded_power [OF assms(2)] round_unbounded_minus)
qed

lemma round_double_cong: "round_unbounded a = round_unbounded b \<Longrightarrow> round_double a = round_double b"
  by (simp add: round_double_def)

lemma binade_ge:
  assumes "2 powi b \<le> \<bar>x\<bar>"
  shows "b \<le> binade x"
proof -
  have "(0::real) < 2 powi b" by simp
  with assms have "0 < \<bar>x\<bar>" by linarith
  then have nz: "x \<noteq> 0" by simp
  have "2 powi b < (2::real) powi (binade x + 1)"
    using assms binade_bounds(2) [OF nz] by linarith
  then have "b < binade x + 1" by (rule two_powi_less_cancel)
  then show ?thesis by simp
qed

lemma normal_after_rounding:
  assumes "z = 0 \<or> - 1022 \<le> binade z"
  shows "round_unbounded z = 0 \<or> - 1022 \<le> binade (round_unbounded z)"
proof (cases "z = 0")
  case True
  then show ?thesis by (simp add: round_unbounded_zero)
next
  case False
  with assms have e: "- 1022 \<le> binade z" by simp
  have "2 powi binade z \<le> \<bar>z\<bar>" using False by (rule binade_bounds)
  then have "2 powi binade z \<le> \<bar>round_unbounded z\<bar>"
    using e by (intro round_unbounded_abs_ge_power) simp_all
  then have "binade z \<le> binade (round_unbounded z)" by (rule binade_ge)
  with e show ?thesis by simp
qed

lemma round_unbounded_double_rounded:
  assumes "z = 0 \<or> - 1022 \<le> binade z"
  shows "round_unbounded (2 * round_unbounded z) = 2 * round_unbounded z"
  using round_unbounded_double [OF normal_after_rounding [OF assms]]
  by (simp add: round_unbounded_idem)

lemmas inf_arith = signed_inf_def float_sign_def

lemma round_double_double:
  assumes "z = 0 \<or> - 1022 \<le> binade z"
  shows "round_double (2 * z) = float_mul (Fl 2) (round_double z)"
proof -
  have d: "round_unbounded (2 * z) = 2 * round_unbounded z"
    using assms by (rule round_unbounded_double)
  have pos: "(0::real) < 2 powi 1024" by simp
  show ?thesis
  proof (cases z rule: round_double_cases)
    case finite
    have "round_unbounded (2 * z) = round_unbounded (2 * round_unbounded z)"
      by (simp only: d round_unbounded_double_rounded [OF assms])
    then have "round_double (2 * z) = round_double (2 * round_unbounded z)"
      by (rule round_double_cong)
    then show ?thesis by (simp add: finite(1))
  next
    case pinf
    then have "2 powi 1024 \<le> round_unbounded (2 * z)" using d pos by linarith
    then have "round_double (2 * z) = PInf" by (simp add: round_double_def)
    then show ?thesis by (simp add: pinf(1) inf_arith)
  next
    case ninf
    then have le: "round_unbounded (2 * z) \<le> - (2 powi 1024)" using d pos by linarith
    then have "\<not> 2 powi 1024 \<le> round_unbounded (2 * z)" using pos by linarith
    with le have "round_double (2 * z) = NInf" by (simp add: round_double_def)
    then show ?thesis by (simp add: ninf(1) inf_arith)
  qed
qed

lemma tripled:
  assumes "z = 0 \<or> - 1022 \<le> binade z"
  shows "float_add (round_double z) (float_mul (Fl 2) (round_double z)) =
         float_mul (Fl 3) (round_double z)"
proof (cases z rule: round_double_cases)
  case finite
  let ?x = "round_unbounded z"
  have x2: "round_unbounded (2 * ?x) = 2 * ?x" using assms by (rule round_unbounded_double_rounded)
  have pos: "(0::real) < 2 powi 1024" by simp
  show ?thesis
  proof (cases "2 * ?x" rule: round_double_cases)
    case finite
    then have "float_mul (Fl 2) (Fl ?x) = Fl (2 * ?x)" by (simp add: x2)
    moreover have "?x + 2 * ?x = 3 * ?x" by simp
    ultimately show ?thesis using \<open>round_double z = Fl ?x\<close> by simp
  next
    case pinf
    then have big: "2 powi 1024 \<le> 2 * ?x" by (simp add: x2)
    then have "2 * ?x \<le> 3 * ?x" using pos by linarith
    then have "round_unbounded (2 * ?x) \<le> round_unbounded (3 * ?x)" by (rule round_unbounded_mono)
    with pinf(2) have "round_double (3 * ?x) = PInf" by (simp add: round_double_def)
    then show ?thesis using \<open>round_double z = Fl ?x\<close> pinf(1) by (simp add: inf_arith)
  next
    case ninf
    then have big: "2 * ?x \<le> - (2 powi 1024)" by (simp add: x2)
    then have "3 * ?x \<le> 2 * ?x" using pos by linarith
    then have "round_unbounded (3 * ?x) \<le> round_unbounded (2 * ?x)" by (rule round_unbounded_mono)
    with ninf(2) have le: "round_unbounded (3 * ?x) \<le> - (2 powi 1024)" by linarith
    then have "\<not> 2 powi 1024 \<le> round_unbounded (3 * ?x)" using pos by linarith
    with le have "round_double (3 * ?x) = NInf" by (simp add: round_double_def)
    then show ?thesis using \<open>round_double z = Fl ?x\<close> ninf(1) by (simp add: inf_arith)
  qed
next
  case pinf
  then show ?thesis by (simp add: inf_arith)
next
  case ninf
  then show ?thesis by (simp add: inf_arith)
qed

section \<open>What a returned estimate was computed from\<close>

text \<open>
  When an estimator returns, every step before has returned: the rules name the
  intermediate values and give the record in terms of them.
\<close>

lemma old_approach_InrE:
  assumes "estimate_storage_old_approach width height fps duration_seconds = Inr r"
  obtains product frames bytes fsize extracted doubled sbs where
    "num_mul fps duration_seconds = Inr product"
    "py_int product = Inr frames"
    "int_mul_float (width * height * 3) (round_double 1.2) = Inr bytes"
    "float_div_int bytes (1024 * 1024) = Inr fsize"
    "float_mul_int fsize frames = Inr extracted"
    "float_mul_int fsize 2 = Inr doubled"
    "float_mul_int doubled frames = Inr sbs"
    "r = \<lparr>total_frames = frames, frame_size_mb = fsize,
           total_peak_mb = float_add extracted sbs,
           extracted_frames_mb = extracted, sbs_frames_mb = sbs\<rparr>"
proof -
  from assms obtain product frames bytes fsize extracted doubled sbs where
    h: "num_mul fps duration_seconds = Inr product"
    "py_int product = Inr frames"
    "int_mul_float (width * height * 3) (round_double 1.2) = Inr bytes"
    "float_div_int bytes (1024 * 1024) = Inr fsize"
    "float_mul_int fsize frames = Inr extracted"
    "float_mul_int fsize 2 = Inr doubled"
    "float_mul_int doubled frames = Inr sbs"
    and "Inr \<lparr>total_frames = frames, frame_size_mb = fsize,
           total_peak_mb = float_add extracted sbs,
           extracted_frames_mb = extracted, sbs_frames_mb = sbs\<rparr> = Inr r"
    unfolding estimate_storage_old_approach_def ebind_eq_Inr Let_def by blast
  then have "r = \<lparr>total_frames = frames, frame_size_mb = fsize,
           total_peak_mb = float_add extracted sbs,
           extracted_frames_mb = extracted, sbs_frames_mb = sbs\<rparr>"
    by (simp only: sum.inject)
  with h show thesis by (rule that)
qed

lemma chunked_approach_InrE:
  assumes "estimate_storage_chunked_approach width height fps duration_seconds c = Inr r"
  obtains product frames chunks bytes fsize extracted doubled sbs videos where
    "num_mul fps duration_seconds = Inr product"
    "py_int product = Inr frames"
    "int_floordiv (frames + c - 1) c = Inr chunks"
    "int_mul_float (width * height * 3) (round_double 1.2) = Inr bytes"
    "float_div_int bytes (1024 * 1024) = Inr fsize"
    "float_mul_int fsize c = Inr extracted"
    "float_mul_int fsize 2 = Inr doubled"
    "float_mul_int doubled c = Inr sbs"
    "float_mul_int (float_mul sbs (round_double 0.1)) chunks = Inr videos"
    "r = \<lparr>total_frames = frames, frame_size_mb = fsize,
           total_peak_mb =
             py_max (float_add (float_add extracted sbs) (float_mul sbs (round_double 0.1)))
               (float_add videos videos),
           total_chunks = chunks, chunk_size = c,
           peak_chunk_mb = float_add (float_add extracted sbs) (float_mul sbs (round_double 0.1)),
           max_chunk_videos_mb = videos\<rparr>"
proof -
  from assms obtain product frames chunks bytes fsize extracted doubled sbs videos where
    h: "num_mul fps duration_seconds = Inr product"
    "py_int product = Inr frames"
    "int_floordiv (frames + c - 1) c = Inr chunks"
    "int_mul_float (width * height * 3) (round_double 1.2) = Inr bytes"
    "float_div_int bytes (1024 * 1024) = Inr fsize"
    "float_mul_int fsize c = Inr extracted"
    "float_mul_int fsize 2 = Inr doubled"
    "float_mul_int doubled c = Inr sbs"
    "float_mul_int (float_mul sbs (round_double 0.1)) chunks = Inr videos"
    and "Inr \<lparr>total_frames = frames, frame_size_mb = fsize,
           total_peak_mb =
             py_max (float_add (float_add extracted sbs) (float_mul sbs (round_double 0.1)))
               (float_add videos videos),
           total_chunks = chunks, chunk_size = c,
           peak_chunk_mb = float_add (float_add extracted sbs) (float_mul sbs (round_double 0.1)),
           max_chunk_videos_mb = videos\<rparr> = Inr r"
    unfolding estimate_storage_chunked_approach_def ebind_eq_Inr Let_def by blast
  then have "r = \<lparr>total_frames = frames, frame_size_mb = fsize,
           total_peak_mb =
             py_max (float_add (float_add extracted sbs) (float_mul sbs (round_double 0.1)))
               (float_add videos videos),
           total_chunks = chunks, chunk_size = c,
           peak_chunk_mb = float_add (float_add extracted sbs) (float_mul sbs (round_double 0.1)),
           max_chunk_videos_mb = videos\<rparr>" by (simp only: sum.inject)
  with h show thesis by (rule that)
qed

section \<open>Operand order\<close>

lemma float_mul_commute: "float_mul x y = float_mul y x"
  by (cases x; cases y) (simp_all add: mult.commute)

lemma int_mul_float_commute: "int_mul_float i x = float_mul_int x i"
  by (simp add: int_mul_float_def float_mul_int_def float_mul_commute)

section \<open>Integer ceiling division\<close>

lemma int_floordiv_Inr: "int_floordiv a b = Inr q \<longleftrightarrow> b \<noteq> 0 \<and> q = a div b"
  by (auto simp add: int_floordiv_def)

lemma ceiling_division:
  fixes n c :: int
  assumes "1 \<le> c"
  shows "n \<le> (n + c - 1) div c * c" and "((n + c - 1) div c - 1) * c < n"
    and "(n + c - 1) div c = \<lceil>real_of_int n / real_of_int c\<rceil>"
proof -
  let ?k = "(n + c - 1) div c"
  have c: "0 < c" using assms by simp
  have eq: "?k * c + (n + c - 1) mod c = n + c - 1" by simp
  have m: "0 \<le> (n + c - 1) mod c" "(n + c - 1) mod c < c" using c by simp_all
  show 1: "n \<le> ?k * c" using eq m by linarith
  have "(?k - 1) * c = ?k * c - c" by (simp add: algebra_simps)
  then show 2: "(?k - 1) * c < n" using eq m by linarith
  have rc: "0 < real_of_int c" using c by simp
  have "real_of_int n \<le> real_of_int (?k * c)" using 1 by (simp only: of_int_le_iff)
  then have up: "real_of_int n / real_of_int c \<le> real_of_int ?k"
    using rc by (simp add: field_simps)
  have "real_of_int ((?k - 1) * c) < real_of_int n" using 2 by (simp only: of_int_less_iff)
  then have lo: "real_of_int ?k - 1 < real_of_int n / real_of_int c"
    using rc by (simp add: field_simps)
  show "?k = \<lceil>real_of_int n / real_of_int c\<rceil>"
    using lo up by (intro ceiling_unique [symmetric]) simp_all
qed

section \<open>Which errors the chunked estimator raises\<close>

text \<open>
  No step raises \<^verbatim>\<open>ZeroDivisionError\<close> but the floor division by a zero chunk size; an
  integer operand raises \<^verbatim>\<open>OverflowError\<close> when it is beyond the float range, and none
  below \<open>2 ^ 1023\<close> in magnitude does.
\<close>

lemma ebind_eq_Inl: "ebind m f = Inl e \<longleftrightarrow> m = Inl e \<or> (\<exists>x. m = Inr x \<and> f x = Inl e)"
  by (cases m) (simp_all add: ebind_def)

lemma float_mul_int_not_zero_division: "float_mul_int x i \<noteq> Inl ZeroDivisionError"
  by (simp add: float_mul_int_def ebind_eq_Inl float_of_int_not_zero_division)

lemma int_mul_float_not_zero_division: "int_mul_float i x \<noteq> Inl ZeroDivisionError"
  by (simp add: int_mul_float_def ebind_eq_Inl float_of_int_not_zero_division)

lemma num_mul_not_zero_division: "num_mul a b \<noteq> Inl ZeroDivisionError"
  by (cases a; cases b)
    (simp_all add: ebind_eq_Inl float_mul_int_not_zero_division int_mul_float_not_zero_division)

lemma py_int_not_zero_division: "py_int p \<noteq> Inl ZeroDivisionError"
  by (cases p rule: py_int.cases) simp_all

lemma float_of_int_mebibyte: "float_of_int 1048576 = Inr (Fl 1048576)"
  by (simp add: op_eval fl_eval cong: let_weak_cong)

lemma float_div_mebibyte_not_zero_division:
  "float_div_int x 1048576 \<noteq> Inl ZeroDivisionError"
  by (cases x) (simp_all add: float_div_int_def float_of_int_mebibyte ebind_Inr)

lemma float_div_mebibyte_returns: "\<exists>y. float_div_int x 1048576 = Inr y"
  by (cases x) (simp_all add: float_div_int_def float_of_int_mebibyte ebind_Inr)

lemma chunked_not_zero_division:
  assumes "c \<noteq> 0"
  shows "estimate_storage_chunked_approach width height fps duration_seconds c \<noteq> Inl ZeroDivisionError"
  using assms
  by (simp add: estimate_storage_chunked_approach_def ebind_eq_Inl Let_def
      num_mul_not_zero_division py_int_not_zero_division int_floordiv_def
      int_mul_float_not_zero_division float_div_mebibyte_not_zero_division
      float_mul_int_not_zero_division)

lemma float_mul_int_returns: "\<bar>i\<bar> \<le> 2 ^ 1023 \<Longrightarrow> \<exists>y. float_mul_int x i = Inr y"
  by (simp add: float_mul_int_def float_of_int_returns ebind_Inr)

lemma int_mul_float_returns: "\<bar>i\<bar> \<le> 2 ^ 1023 \<Longrightarrow> \<exists>y. int_mul_float i x = Inr y"
  by (simp add: int_mul_float_def float_of_int_returns ebind_Inr)

lemma ceiling_division_abs:
  fixes n c :: int
  assumes "1 \<le> c"
  shows "\<bar>(n + c - 1) div c\<bar> \<le> \<bar>n\<bar>"
proof -
  let ?k = "(n + c - 1) div c"
  note b = ceiling_division(1,2) [OF assms, of n]
  show ?thesis
  proof (cases "0 \<le> n")
    case True
    have "0 \<le> ?k" using True assms by (simp add: pos_imp_zdiv_nonneg_iff)
    moreover have "?k \<le> n"
    proof (rule ccontr)
      assume "\<not> ?k \<le> n"
      then have "n \<le> ?k - 1" by simp
      moreover have "0 \<le> ?k - 1" using True \<open>\<not> ?k \<le> n\<close> by simp
      then have "(?k - 1) * 1 \<le> (?k - 1) * c" using assms by (intro mult_left_mono) simp_all
      ultimately show False using b(2) by simp
    qed
    ultimately show ?thesis using True by simp
  next
    case False
    have "?k \<le> 0"
    proof (rule ccontr)
      assume "\<not> ?k \<le> 0"
      then have "0 \<le> ?k - 1" by simp
      then have "0 \<le> (?k - 1) * c" using assms by simp
      with b(2) False show False by simp
    qed
    moreover have "n \<le> ?k"
    proof -
      have "?k * c \<le> ?k * 1" using \<open>?k \<le> 0\<close> assms by (intro mult_left_mono_neg) simp_all
      with b(1) show ?thesis by simp
    qed
    ultimately show ?thesis using False by simp
  qed
qed

lemma float_of_int_overflow:
  assumes "2 ^ 1024 \<le> i"
  shows "float_of_int i = Inl OverflowError"
proof -
  let ?b = "(2::real) powi 1024"
  have "real_of_int (2 ^ 1024) \<le> real_of_int i" using assms by (simp only: of_int_le_iff)
  then have le: "?b \<le> real_of_int i" by simp
  have "binade ?b = 1024" by (rule binade_unique) (simp_all add: two_powi_add)
  then have "?b \<le> round_unbounded ?b"
    by (intro round_unbounded_ge_power) simp_all
  also have "\<dots> \<le> round_unbounded (real_of_int i)" using le by (rule round_unbounded_mono)
  finally have "round_double (real_of_int i) = PInf" by (simp add: round_double_def Let_def)
  then show ?thesis by (simp add: float_of_int_def)
qed

lemma chunked_overflow_chunk_size:
  assumes "2 ^ 1024 \<le> c" "num_mul fps duration_seconds = Inr product" "py_int product = Inr frames"
    and "\<bar>width * height * 3\<bar> \<le> 2 ^ 1023"
  shows "estimate_storage_chunked_approach width height fps duration_seconds c = Inl OverflowError"
proof -
  have c: "c \<noteq> 0" using assms(1) by auto
  have d: "int_floordiv (frames + c - 1) c = Inr ((frames + c - 1) div c)"
    using c by (simp add: int_floordiv_def)
  obtain bytes where 1: "int_mul_float (width * height * 3) (round_double 1.2) = Inr bytes"
    using int_mul_float_returns [OF assms(4)] by blast
  obtain fsize where 2: "float_div_int bytes (1024 * 1024) = Inr fsize"
    using float_div_mebibyte_returns [of bytes] by auto
  have 3: "float_mul_int fsize c = Inl OverflowError"
    by (simp add: float_mul_int_def float_of_int_overflow [OF assms(1)] ebind_Inl)
  show ?thesis
    unfolding estimate_storage_chunked_approach_def
    by (simp only: assms(2,3) d 1 2 3 ebind_Inr ebind_Inl)
qed

lemma chunked_huge_chunk_size:
  "estimate_storage_chunked_approach 1920 1080 (PyInt 30) (PyInt 600) (2 ^ 1024) = Inl OverflowError"
  by (rule chunked_overflow_chunk_size [where product = "PyInt 18000" and frames = 18000]) simp_all

section \<open>Signs and the frame count\<close>

text \<open>
  A product of non-negative numbers is non-negative or overflows to infinity, so
  \<^verbatim>\<open>int\<close> of it, when defined, is its floor.
\<close>

lemma round_double_nonneg:
  assumes "0 \<le> x"
  obtains (finite) r where "round_double x = Fl r" "0 \<le> r" | (pinf) "round_double x = PInf"
proof (cases x rule: round_double_cases)
  case finite
  then show ?thesis using round_unbounded_nonneg [OF assms] that(1) by simp
next
  case pinf
  then show ?thesis using that(2) by simp
next
  case ninf
  have "(0::real) < 2 powi 1024" by simp
  with ninf(2) round_unbounded_nonneg [OF assms] have False by linarith
  then show ?thesis ..
qed

lemma float_of_int_nonneg:
  assumes "0 \<le> i" "float_of_int i = Inr y"
  obtains a where "y = Fl a" "0 \<le> a"
proof -
  have "0 \<le> real_of_int i" using assms(1) by simp
  then have "0 \<le> round_unbounded (real_of_int i)" by (rule round_unbounded_nonneg)
  with float_of_int_Inr [OF assms(2)] that show ?thesis by simp
qed

lemma float_mul_nonneg:
  assumes "0 \<le> a" "0 \<le> b"
  obtains (finite) r where "float_mul (Fl a) (Fl b) = Fl r" "0 \<le> r"
    | (pinf) "float_mul (Fl a) (Fl b) = PInf"
proof -
  have "0 \<le> a * b" using assms by simp
  then show ?thesis by (cases rule: round_double_nonneg) (use that in simp_all)
qed

lemma num_mul_nonneg:
  assumes "num_nonneg a" "num_nonneg b" "num_mul a b = Inr p"
  shows "num_nonneg p \<or> p = PyFloat PInf"
proof (cases a)
  case (PyInt i)
  note a = this
  show ?thesis
  proof (cases b)
    case (PyInt j)
    then show ?thesis using assms a by auto
  next
    case (PyFloat y)
    then obtain v where y: "y = Fl v" "0 \<le> v" using assms(2) by (cases y) simp_all
    from assms(3) a PyFloat obtain x where x: "float_of_int i = Inr x" "p = PyFloat (float_mul x y)"
      by (auto simp add: int_mul_float_def ebind_eq_Inr)
    from assms(1) a have "0 \<le> i" by simp
    then obtain u where u: "x = Fl u" "0 \<le> u" using x(1) by (rule float_of_int_nonneg)
    show ?thesis using u(2) y(2)
      by (cases rule: float_mul_nonneg) (simp_all add: x(2) u(1) y(1))
  qed
next
  case (PyFloat x)
  then obtain u where u: "x = Fl u" "0 \<le> u" using assms(1) by (cases x) simp_all
  note a = PyFloat
  show ?thesis
  proof (cases b)
    case (PyInt j)
    from assms(3) a PyInt obtain y where y: "float_of_int j = Inr y" "p = PyFloat (float_mul x y)"
      by (auto simp add: float_mul_int_def ebind_eq_Inr)
    from assms(2) PyInt have "0 \<le> j" by simp
    then obtain v where v: "y = Fl v" "0 \<le> v" using y(1) by (rule float_of_int_nonneg)
    show ?thesis using u(2) v(2)
      by (cases rule: float_mul_nonneg) (simp_all add: y(2) u(1) v(1))
  next
    case (PyFloat y)
    then obtain v where v: "y = Fl v" "0 \<le> v" using assms(2) by (cases y) simp_all
    from assms(3) a PyFloat have p: "p = PyFloat (float_mul x y)" by simp
    show ?thesis using u(2) v(2)
      by (cases rule: float_mul_nonneg) (simp_all add: p u(1) v(1))
  qed
qed

lemma py_int_nonneg_is_floor:
  assumes "py_int p = Inr n" "num_nonneg p \<or> p = PyFloat PInf"
  shows "floor_num p = Some n \<and> 0 \<le> n"
  using assms by (cases p rule: py_int.cases) (auto simp add: trunc_toward_zero_def)

lemma num_is_cases:
  assumes "num_is x v"
  obtains (int) i where "x = PyInt i" "real_of_int i = v" | (float) "x = PyFloat (Fl v)"
  using assms by (cases "(x, v)" rule: num_is.cases) auto

lemma float_of_int_30: "float_of_int 30 = Inr (Fl 30)"
  by (simp add: op_eval fl_eval cong: let_weak_cong)

lemma float_of_int_600: "float_of_int 600 = Inr (Fl 600)"
  by (simp add: op_eval fl_eval cong: let_weak_cong)

lemma round_double_18000: "round_double 18000 = Fl 18000"
  by (simp add: fl_eval cong: let_weak_cong)

lemma num_is_30: "num_is x 30 \<Longrightarrow> x = PyInt 30 \<or> x = PyFloat (Fl 30)"
  by (erule num_is_cases) simp_all

lemma num_is_600: "num_is x 600 \<Longrightarrow> x = PyInt 600 \<or> x = PyFloat (Fl 600)"
  by (erule num_is_cases) simp_all

lemma num_mul_30_600:
  "num_mul (PyInt 30) (PyInt 600) = Inr (PyInt 18000)"
  "num_mul (PyInt 30) (PyFloat (Fl 600)) = Inr (PyFloat (Fl 18000))"
  "num_mul (PyFloat (Fl 30)) (PyInt 600) = Inr (PyFloat (Fl 18000))"
  "num_mul (PyFloat (Fl 30)) (PyFloat (Fl 600)) = Inr (PyFloat (Fl 18000))"
  by (simp_all add: int_mul_float_def float_mul_int_def float_of_int_30 float_of_int_600
      ebind_Inr round_double_18000)

lemma frames_30_600:
  assumes "num_is fps 30" "num_is duration_seconds 600"
    and "num_mul fps duration_seconds = Inr p" "py_int p = Inr n"
  shows "n = 18000"
proof -
  from num_is_30 [OF assms(1)] num_is_600 [OF assms(2)] assms(3)
  have "p = PyInt 18000 \<or> p = PyFloat (Fl 18000)"
    by (elim disjE; hypsubst; simp only: num_mul_30_600 sum.inject; simp)
  with assms(4) show ?thesis by (elim disjE) (simp_all add: trunc_toward_zero_def)
qed

lemma frames_of_product:
  assumes "num_mul fps duration_seconds = Inr product" "py_int product = Inr frames"
  shows "(num_nonneg fps \<and> num_nonneg duration_seconds \<longrightarrow> floor_num product = Some frames) \<and>
         (num_is fps 30 \<and> num_is duration_seconds 600 \<longrightarrow> frames = 18000)"
proof (intro conjI impI)
  assume "num_nonneg fps \<and> num_nonneg duration_seconds"
  then have "num_nonneg product \<or> product = PyFloat PInf"
    using assms(1) by (intro num_mul_nonneg) simp_all
  with assms(2) show "floor_num product = Some frames"
    using py_int_nonneg_is_floor by blast
next
  assume "num_is fps 30 \<and> num_is duration_seconds 600"
  then show "frames = 18000" using assms by (intro frames_30_600) simp_all
qed

section \<open>The shape of the frame size\<close>

text \<open>
  The frame size is an infinity, zero, or a float of magnitude between \<open>2 powi (- 20)\<close>
  and \<open>2 powi 1004\<close>, with the sign of \<open>width * height\<close>. Doubling it is exact, and no
  product with a frame count or chunk size is subnormal.
\<close>

lemma literal_1_2: "round_double 1.2 = Fl (5404319552844595 / 4503599627370496)"
  by (simp add: fl_eval cong: let_weak_cong)

lemma literal_0_1: "round_double 0.1 = Fl (3602879701896397 / 36028797018963968)"
  by (simp add: fl_eval cong: let_weak_cong)

lemma float_of_int_2: "float_of_int 2 = Inr (Fl 2)"
  by (simp add: op_eval fl_eval cong: let_weak_cong)

lemma float_of_int_3: "float_of_int 3 = Inr (Fl 3)"
  by (simp add: op_eval fl_eval cong: let_weak_cong)

lemma float_of_int_shape:
  assumes "float_of_int i = Inr y"
  obtains t where "y = Fl t" "t = round_unbounded (of_int i)" "t = 0 \<or> 1 \<le> \<bar>t\<bar>"
    "i = 0 \<longrightarrow> t = 0" "0 \<le> i \<longrightarrow> 0 \<le> t" "0 < i \<longrightarrow> 1 \<le> t"
proof -
  let ?t = "round_unbounded (real_of_int i)"
  have y: "y = Fl ?t" using assms by (rule float_of_int_Inr)
  have z: "i = 0 \<longrightarrow> ?t = 0" by (simp add: round_unbounded_zero)
  have big: "1 \<le> \<bar>?t\<bar>" if "i \<noteq> 0"
  proof -
    have "1 \<le> \<bar>i\<bar>" using that by simp
    then have "real_of_int 1 \<le> real_of_int \<bar>i\<bar>" by (simp only: of_int_le_iff)
    then have "2 powi 0 \<le> \<bar>real_of_int i\<bar>" by simp
    then have "2 powi 0 \<le> \<bar>?t\<bar>" by (rule round_unbounded_abs_ge_power) simp
    then show ?thesis by simp
  qed
  have nn: "0 \<le> i \<longrightarrow> 0 \<le> ?t" by (simp add: round_unbounded_nonneg)
  have p: "0 < i \<longrightarrow> 1 \<le> ?t"
  proof
    assume "0 < i"
    then have "1 \<le> \<bar>?t\<bar>" "0 \<le> ?t" using big nn by simp_all
    then show "1 \<le> ?t" by linarith
  qed
  have c: "?t = 0 \<or> 1 \<le> \<bar>?t\<bar>" using z big by blast
  from y refl c z nn p show ?thesis by (rule that)
qed

lemma frame_size_cases:
  assumes "int_mul_float n (round_double 1.2) = Inr bytes"
    and "float_div_int bytes (1024 * 1024) = Inr fsize"
  obtains (finite) q where "fsize = Fl q" "round_unbounded q = q"
      "q = 0 \<or> 2 powi (- 20) \<le> \<bar>q\<bar>" "\<bar>q\<bar> \<le> 2 powi 1004"
      "0 \<le> n \<longrightarrow> 0 \<le> q" "0 < n \<longrightarrow> 0 < q"
    | (pinf) "fsize = PInf" "0 < n"
    | (ninf) "fsize = NInf" "n < 0"
proof -
  let ?L = "5404319552844595 / 4503599627370496 :: real"
  from assms(1) obtain y where y: "float_of_int n = Inr y" "bytes = float_mul y (round_double 1.2)"
    by (auto simp add: int_mul_float_def ebind_eq_Inr)
  from y(1) obtain t where t: "y = Fl t" "t = 0 \<or> 1 \<le> \<bar>t\<bar>" "0 \<le> n \<longrightarrow> 0 \<le> t" "0 < n \<longrightarrow> 1 \<le> t"
    by (rule float_of_int_shape)
  have tneg: "n < 0 \<longrightarrow> t \<le> 0"
  proof
    assume "n < 0"
    then have "real_of_int n \<le> 0" by simp
    then have "round_unbounded (real_of_int n) \<le> round_unbounded 0" by (rule round_unbounded_mono)
    then show "t \<le> 0" using float_of_int_Inr [OF y(1)] t(1) by (simp add: round_unbounded_zero)
  qed
  have bytes: "bytes = round_double (t * ?L)" using y(2) t(1) by (simp only: literal_1_2 float_mul.simps)
  have fs: "float_div bytes (Fl 1048576) = Inr fsize"
    using assms(2) by (simp add: float_div_int_def float_of_int_mebibyte ebind_Inr)
  have pos: "(0::real) < 2 powi 1024" by simp
  have sgn_pos: "0 < n" if "0 < round_unbounded (t * ?L)"
  proof (rule ccontr)
    assume "\<not> 0 < n"
    then have "n < 0 \<or> n = 0" by linarith
    then have "t \<le> 0" using tneg t(3) float_of_int_Inr [OF y(1)] t(1)
      by (auto simp add: round_unbounded_zero)
    then have "t * ?L \<le> 0" by (simp add: mult_le_0_iff)
    then have "round_unbounded (t * ?L) \<le> round_unbounded 0" by (rule round_unbounded_mono)
    with that show False by (simp add: round_unbounded_zero)
  qed
  have sgn_neg: "n < 0" if "round_unbounded (t * ?L) < 0"
  proof (rule ccontr)
    assume "\<not> n < 0"
    then have "0 \<le> t" using t(3) by simp
    then have "0 \<le> t * ?L" by simp
    then have "0 \<le> round_unbounded (t * ?L)" by (rule round_unbounded_nonneg)
    with that show False by simp
  qed
  show thesis
  proof (cases "t * ?L" rule: round_double_cases)
    case 1: finite
    let ?b = "round_unbounded (t * ?L)"
    let ?q = "round_unbounded (?b / 1048576)"
    have "\<bar>?b\<bar> \<le> 2 powi 1024" using 1(2,3) by linarith
    then have "\<bar>?b / 1048576\<bar> \<le> 2 powi 1024 / 2 powi 20" by (simp add: divide_right_mono)
    also have "\<dots> = 2 powi 1004" using two_powi_diff [of 1024 20] by simp
    finally have small: "\<bar>?b / 1048576\<bar> \<le> 2 powi 1004" .
    have qb: "\<bar>?q\<bar> \<le> 2 powi 1004" using small by (rule round_unbounded_abs_le_power) simp
    have "(2::real) powi 1004 \<le> 2 powi 1023" by (rule two_powi_mono) simp
    with small have "round_double (?b / 1048576) = Fl ?q" by (intro round_double_finite) linarith
    then have f: "fsize = Fl ?q" using fs bytes 1(1) by simp
    have away: "2 powi (- 20) \<le> \<bar>?q\<bar>" if "t \<noteq> 0"
    proof -
      from that t(2) have "1 \<le> \<bar>t\<bar>" by simp
      then have "1 * 1 \<le> \<bar>t\<bar> * ?L" by (intro mult_mono) simp_all
      then have "2 powi 0 \<le> \<bar>t * ?L\<bar>" by (simp add: abs_mult)
      then have "2 powi 0 \<le> \<bar>?b\<bar>" by (rule round_unbounded_abs_ge_power) simp
      then have "1 / 1048576 \<le> \<bar>?b\<bar> / 1048576" by (simp add: divide_right_mono)
      moreover have "(2::real) powi (- 20) = 1 / 1048576" by (simp add: power_int_minus_divide)
      ultimately have "2 powi (- 20) \<le> \<bar>?b / 1048576\<bar>" by simp
      then show ?thesis by (rule round_unbounded_abs_ge_power) simp
    qed
    have lower: "?q = 0 \<or> 2 powi (- 20) \<le> \<bar>?q\<bar>"
      using away by (cases "t = 0") (simp_all add: round_unbounded_zero)
    have nonneg: "0 \<le> n \<longrightarrow> 0 \<le> ?q"
    proof
      assume "0 \<le> n"
      with t(3) have "0 \<le> t * ?L" by simp
      then have "0 \<le> ?b" by (rule round_unbounded_nonneg)
      then have "0 \<le> ?b / 1048576" by simp
      then show "0 \<le> ?q" by (rule round_unbounded_nonneg)
    qed
    have positive: "0 < n \<longrightarrow> 0 < ?q"
    proof
      assume n: "0 < n"
      with t(4) have "t \<noteq> 0" by auto
      then have "2 powi (- 20) \<le> \<bar>?q\<bar>" by (rule away)
      moreover have "(0::real) < 2 powi (- 20)" by simp
      moreover from n nonneg have "0 \<le> ?q" by simp
      ultimately show "0 < ?q" by linarith
    qed
    show ?thesis
      using f round_unbounded_idem [of "?b / 1048576"] lower qb nonneg positive
      by (rule finite)
  next
    case 2: pinf
    then have "fsize = PInf" using fs bytes by (simp add: inf_arith)
    moreover have "0 < n" using 2(2) pos by (intro sgn_pos) linarith
    ultimately show ?thesis by (rule pinf)
  next
    case 3: ninf
    then have "fsize = NInf" using fs bytes by (simp add: inf_arith)
    moreover have "n < 0" using 3(2) pos by (intro sgn_neg) linarith
    ultimately show ?thesis by (rule ninf)
  qed
qed

lemma signed_inf_doubled_tripled:
  "float_mul (Fl 2) (signed_inf s) = signed_inf s"
  "float_add (signed_inf s) (signed_inf s) = float_mul (Fl 3) (signed_inf s)"
  by (simp_all add: inf_arith)

lemma old_peaks_finite_frame:
  assumes q: "round_unbounded q = q" "q = 0 \<or> 2 powi (- 20) \<le> \<bar>q\<bar>" "\<bar>q\<bar> \<le> 2 powi 1004"
    and t: "t = 0 \<or> 1 \<le> \<bar>t\<bar>"
  shows "float_mul (float_mul (Fl q) (Fl 2)) (Fl t) = float_mul (Fl 2) (float_mul (Fl q) (Fl t))"
    and "float_add (float_mul (Fl q) (Fl t)) (float_mul (Fl 2) (float_mul (Fl q) (Fl t))) =
         float_mul (Fl 3) (float_mul (Fl q) (Fl t))"
proof -
  have qn: "q = 0 \<or> - 1022 \<le> binade q"
  proof (cases "q = 0")
    case False
    with q(2) have "- 20 \<le> binade q" by (intro binade_ge) simp
    then show ?thesis by simp
  qed simp
  have zn: "q * t = 0 \<or> - 1022 \<le> binade (q * t)"
  proof (cases "q = 0 \<or> t = 0")
    case False
    with q(2) t have "2 powi (- 20) \<le> \<bar>q\<bar>" "1 \<le> \<bar>t\<bar>" by simp_all
    then have "2 powi (- 20) * 1 \<le> \<bar>q\<bar> * \<bar>t\<bar>" by (intro mult_mono) simp_all
    then have "2 powi (- 20) \<le> \<bar>q * t\<bar>" by (simp add: abs_mult)
    then have "- 20 \<le> binade (q * t)" by (rule binade_ge)
    then show ?thesis by simp
  qed auto
  have "round_unbounded (2 * q) = 2 * q" using round_unbounded_double [OF qn] q(1) by simp
  moreover have "\<bar>2 * q\<bar> \<le> 2 powi 1023"
  proof -
    have "\<bar>2 * q\<bar> \<le> 2 * 2 powi 1004" using q(3) by simp
    also have "\<dots> = 2 powi 1005" using two_powi_add [of 1 1004] by simp
    also have "\<dots> \<le> 2 powi 1023" by (rule two_powi_mono) simp
    finally show ?thesis .
  qed
  ultimately have "round_double (2 * q) = Fl (2 * q)" using round_double_finite [of "2 * q"] by simp
  then have d: "round_double (q * 2) = Fl (2 * q)" by (simp add: mult.commute)
  have "float_mul (Fl (2 * q)) (Fl t) = round_double (2 * (q * t))" by (simp add: mult.assoc)
  also have "\<dots> = float_mul (Fl 2) (round_double (q * t))" using zn by (rule round_double_double)
  finally have "float_mul (Fl (2 * q)) (Fl t) = float_mul (Fl 2) (round_double (q * t))" .
  then show "float_mul (float_mul (Fl q) (Fl 2)) (Fl t) = float_mul (Fl 2) (float_mul (Fl q) (Fl t))"
    by (simp only: d float_mul.simps(1))
  show "float_add (float_mul (Fl q) (Fl t)) (float_mul (Fl 2) (float_mul (Fl q) (Fl t))) =
         float_mul (Fl 3) (float_mul (Fl q) (Fl t))"
    using tripled [OF zn] by simp
qed

lemma old_peaks_infinite_frame:
  assumes "fsize = PInf \<or> fsize = NInf"
  shows "float_mul (float_mul fsize (Fl 2)) (Fl t) = float_mul (Fl 2) (float_mul fsize (Fl t))"
    and "float_add (float_mul fsize (Fl t)) (float_mul (Fl 2) (float_mul fsize (Fl t))) =
         float_mul (Fl 3) (float_mul fsize (Fl t))"
  using assms by (auto simp add: inf_arith sgn_real_def)

section \<open>Monotone float operations\<close>

text \<open>
  On floats that are neither negative nor NaN, Python's \<open><=\<close> is preserved by addition
  and by multiplication with positive factors.
\<close>

lemma round_double_mono:
  assumes "a \<le> b"
  shows "float_le (round_double a) (round_double b)"
proof -
  have m: "round_unbounded a \<le> round_unbounded b" using assms by (rule round_unbounded_mono)
  have pos: "(0::real) < 2 powi 1024" by simp
  show ?thesis
  proof (cases a rule: round_double_cases)
    case fa: finite
    show ?thesis
    proof (cases b rule: round_double_cases)
      case finite
      then show ?thesis using fa m by (simp add: float_le_def)
    next
      case pinf
      then show ?thesis using fa by (simp add: float_le_def)
    next
      case ninf
      with fa m have False by linarith
      then show ?thesis ..
    qed
  next
    case pa: pinf
    then have "2 powi 1024 \<le> round_unbounded b" using m by linarith
    then have "round_double b = PInf" by (simp add: round_double_def)
    then show ?thesis using pa by (simp add: float_le_def)
  next
    case na: ninf
    show ?thesis
      by (cases b rule: round_double_cases) (simp_all add: na(1) float_le_def)
  qed
qed

lemma round_double_float_nonneg: "0 \<le> a \<Longrightarrow> float_nonneg (round_double a)"
  by (erule round_double_nonneg) simp_all

lemma float_nonneg_cases:
  assumes "float_nonneg x"
  obtains (finite) a where "x = Fl a" "0 \<le> a" | (pinf) "x = PInf"
  using assms by (cases x) simp_all

lemma float_le_PInf: "float_nonneg x \<Longrightarrow> float_le x PInf"
  by (cases x) (simp_all add: float_le_def)

lemma float_le_refl: "float_nonneg x \<Longrightarrow> float_le x x"
  by (cases x) (simp_all add: float_le_def)

lemma float_le_Fl: "float_le (Fl a) (Fl b) \<longleftrightarrow> a \<le> b"
  by (auto simp add: float_le_def)

lemma float_le_PInf_Fl: "\<not> float_le PInf (Fl b)"
  by (simp add: float_le_def)

lemma float_mul_pos_nonneg:
  assumes "float_nonneg x" "0 < k"
  shows "float_nonneg (float_mul x (Fl k))"
  using assms(1)
proof (cases rule: float_nonneg_cases)
  case (finite a)
  then have "0 \<le> a * k" using assms(2) by simp
  then show ?thesis using finite(1) by (simp add: round_double_float_nonneg)
next
  case pinf
  then show ?thesis using assms(2) by (simp add: inf_arith)
qed

lemma float_mul_mono:
  assumes "float_nonneg x" "float_nonneg x'" "float_le x x'" "0 < k" "k \<le> k'"
  shows "float_le (float_mul x (Fl k)) (float_mul x' (Fl k'))"
  using assms(2)
proof (cases rule: float_nonneg_cases)
  case (finite b)
  with assms(1,3) obtain a where a: "x = Fl a" "0 \<le> a" "a \<le> b"
    by (cases x) (simp_all add: float_le_def)
  have "a * k \<le> b * k'" using a(2,3) assms(4,5) by (intro mult_mono) simp_all
  then show ?thesis using a(1) finite(1) by (simp add: round_double_mono)
next
  case pinf
  have "0 < k'" using assms(4,5) by simp
  then have "float_mul x' (Fl k') = PInf" using pinf by (simp add: inf_arith)
  moreover have "float_nonneg (float_mul x (Fl k))" using assms(1,4) by (rule float_mul_pos_nonneg)
  ultimately show ?thesis by (simp add: float_le_PInf)
qed

lemma float_add_nonneg:
  assumes "float_nonneg x" "float_nonneg y"
  shows "float_nonneg (float_add x y)"
  using assms by (cases x; cases y) (simp_all add: round_double_float_nonneg)

lemma float_add_mono:
  assumes "float_nonneg x" "float_nonneg y" "float_nonneg x'" "float_nonneg y'"
    and "float_le x x'" "float_le y y'"
  shows "float_le (float_add x y) (float_add x' y')"
proof (cases "x' = PInf \<or> y' = PInf")
  case True
  then have "float_add x' y' = PInf" using assms(3,4) by (cases x'; cases y') auto
  then show ?thesis using float_add_nonneg [OF assms(1,2)] by (simp add: float_le_PInf)
next
  case False
  with assms(3,4) obtain b d where b: "x' = Fl b" "y' = Fl d" by (cases x'; cases y') auto
  with assms(1,2,5,6) obtain a c where a: "x = Fl a" "y = Fl c" "a \<le> b" "c \<le> d"
    by (cases x; cases y) (simp_all add: float_le_def)
  have "a + c \<le> b + d" using a(3,4) by simp
  then show ?thesis using a(1,2) b by (simp add: round_double_mono)
qed

lemma ceiling_division_antimono:
  fixes n c1 c2 :: int
  assumes "0 \<le> n" "1 \<le> c2" "c2 \<le> c1"
  shows "(n + c1 - 1) div c1 \<le> (n + c2 - 1) div c2"
proof -
  let ?k1 = "(n + c1 - 1) div c1" and ?k2 = "(n + c2 - 1) div c2"
  have c1: "1 \<le> c1" using assms(2,3) by simp
  note b1 = ceiling_division(1,2) [OF c1, of n]
  note b2 = ceiling_division(1,2) [OF assms(2), of n]
  have k2: "0 \<le> ?k2" using assms(1,2) by (simp add: pos_imp_zdiv_nonneg_iff)
  have "?k2 * c2 \<le> ?k2 * c1" using assms(3) k2 by (rule mult_left_mono)
  with b1(2) b2(1) have "(?k1 - 1) * c1 < ?k2 * c1" by linarith
  then have "?k1 - 1 < ?k2" using c1 by (simp add: mult_less_cancel_right)
  then show ?thesis by simp
qed

lemma chunk_float:
  assumes "float_mul_int x c = Inr y" "1 \<le> c"
  obtains t where "float_of_int c = Inr (Fl t)" "t = round_unbounded (of_int c)" "1 \<le> t"
    "y = float_mul x (Fl t)"
proof -
  from assms(1) obtain z where z: "float_of_int c = Inr z" "y = float_mul x z"
    by (auto simp add: float_mul_int_def ebind_eq_Inr)
  from z(1) obtain t where t: "z = Fl t" "t = round_unbounded (of_int c)" "0 < c \<longrightarrow> 1 \<le> t"
    by (rule float_of_int_shape)
  with z assms(2) show ?thesis by (intro that [of t]) simp_all
qed

lemma peak_chunk_mono:
  assumes "float_nonneg fsize" "1 \<le> t2" "t2 \<le> t1"
  shows "float_le
    (float_add (float_add (float_mul fsize (Fl t2)) (float_mul (float_mul fsize (Fl 2)) (Fl t2)))
       (float_mul (float_mul (float_mul fsize (Fl 2)) (Fl t2)) (round_double 0.1)))
    (float_add (float_add (float_mul fsize (Fl t1)) (float_mul (float_mul fsize (Fl 2)) (Fl t1)))
       (float_mul (float_mul (float_mul fsize (Fl 2)) (Fl t1)) (round_double 0.1)))"
proof -
  let ?d = "float_mul fsize (Fl 2)"
  let ?L = "3602879701896397 / 36028797018963968 :: real"
  have t: "0 < t2" "0 < t1" using assms(2,3) by simp_all
  have d: "float_nonneg ?d" using assms(1) by (rule float_mul_pos_nonneg) simp
  have e: "float_nonneg (float_mul fsize (Fl t2))" "float_nonneg (float_mul fsize (Fl t1))"
    using assms(1) t by (simp_all only: float_mul_pos_nonneg)
  have s: "float_nonneg (float_mul ?d (Fl t2))" "float_nonneg (float_mul ?d (Fl t1))"
    using d t by (simp_all only: float_mul_pos_nonneg)
  have v: "float_nonneg (float_mul (float_mul ?d (Fl t2)) (Fl ?L))"
    "float_nonneg (float_mul (float_mul ?d (Fl t1)) (Fl ?L))"
    using s by (simp_all only: float_mul_pos_nonneg zero_less_divide_iff zero_less_numeral simp_thms)
  have le_e: "float_le (float_mul fsize (Fl t2)) (float_mul fsize (Fl t1))"
    using assms(1) assms(1) float_le_refl [OF assms(1)] t(1) assms(3) by (rule float_mul_mono)
  have le_s: "float_le (float_mul ?d (Fl t2)) (float_mul ?d (Fl t1))"
    using d d float_le_refl [OF d] t(1) assms(3) by (rule float_mul_mono)
  have le_v: "float_le (float_mul (float_mul ?d (Fl t2)) (Fl ?L)) (float_mul (float_mul ?d (Fl t1)) (Fl ?L))"
    using s le_s by (rule float_mul_mono) simp_all
  have le_a: "float_le (float_add (float_mul fsize (Fl t2)) (float_mul ?d (Fl t2)))
      (float_add (float_mul fsize (Fl t1)) (float_mul ?d (Fl t1)))"
    using e(1) s(1) e(2) s(2) le_e le_s by (rule float_add_mono)
  have a: "float_nonneg (float_add (float_mul fsize (Fl t2)) (float_mul ?d (Fl t2)))"
    "float_nonneg (float_add (float_mul fsize (Fl t1)) (float_mul ?d (Fl t1)))"
    using e s by (simp_all only: float_add_nonneg)
  have "float_le
      (float_add (float_add (float_mul fsize (Fl t2)) (float_mul ?d (Fl t2)))
         (float_mul (float_mul ?d (Fl t2)) (Fl ?L)))
      (float_add (float_add (float_mul fsize (Fl t1)) (float_mul ?d (Fl t1)))
         (float_mul (float_mul ?d (Fl t1)) (Fl ?L)))"
    using a(1) v(1) a(2) v(2) le_a le_v by (rule float_add_mono)
  then show ?thesis by (simp only: literal_0_1)
qed

section \<open>A profile with no frames\<close>

text \<open>
  With no frame there is no chunk, and the total peak is the peak of one chunk.
\<close>

lemma float_of_int_0: "float_of_int 0 = Inr (Fl 0)"
  using float_of_int_returns [of 0] by (simp add: round_unbounded_zero)

lemma round_double_0: "round_double 0 = Fl 0"
  using round_double_finite [of 0] by (simp add: round_unbounded_zero)

lemma round_double_power:
  assumes "- 1022 \<le> b" "b \<le> 1023"
  shows "round_double (2 powi b) = Fl (2 powi b)"
proof -
  have "(2::real) powi b \<le> 2 powi 1023" using assms(2) by (rule two_powi_mono)
  moreover have "\<bar>(2::real) powi b\<bar> = 2 powi b" by simp
  ultimately have "\<bar>(2::real) powi b\<bar> \<le> 2 powi 1023" by (simp only:)
  then have "round_double (2 powi b) = Fl (round_unbounded (2 powi b))" by (rule round_double_finite)
  moreover have "round_unbounded (2 powi b) = 2 powi b" using assms(1) by (intro round_unbounded_power) simp
  ultimately show ?thesis by simp
qed

lemma float_le_positive:
  assumes "float_le (Fl m) x" "0 < m"
  shows "float_gt x (Fl 0)" and "float_nonneg x"
  using assms by (cases x; simp add: float_le_def)+

lemma float_nonneg_zero_le: "float_nonneg x \<Longrightarrow> float_le (Fl 0) x"
  by (cases x) (simp_all add: float_le_def)

text \<open>The peak of one chunk is at least \<open>2 powi (- 20)\<close> when the frame size is.\<close>

lemma peak_chunk_lower_bound:
  assumes "float_le (Fl (2 powi (- 20))) fsize" "1 \<le> t"
  shows "float_le (Fl (2 powi (- 20)))
    (float_add (float_add (float_mul fsize (Fl t)) (float_mul (float_mul fsize (Fl 2)) (Fl t)))
       (float_mul (float_mul (float_mul fsize (Fl 2)) (Fl t)) (round_double 0.1)))"
proof -
  let ?m = "(2::real) powi (- 20)"
  let ?L = "3602879701896397 / 36028797018963968 :: real"
  let ?s = "float_mul (float_mul fsize (Fl 2)) (Fl t)"
  have m: "0 < ?m" by simp
  have rm: "round_double ?m = Fl ?m" by (rule round_double_power) simp_all
  have f: "float_nonneg fsize" using assms(1) m by (rule float_le_positive)
  have t: "0 < t" using assms(2) by simp
  have "float_le (float_mul (Fl ?m) (Fl 1)) (float_mul fsize (Fl t))"
    using _ f assms(1) _ assms(2) by (rule float_mul_mono) simp_all
  then have e: "float_le (Fl ?m) (float_mul fsize (Fl t))" by (simp only: float_mul.simps mult_1_right rm)
  have en: "float_nonneg (float_mul fsize (Fl t))" using e m by (rule float_le_positive)
  have "float_nonneg (float_mul fsize (Fl 2))" using f by (rule float_mul_pos_nonneg) simp
  then have sn: "float_nonneg ?s" using t by (rule float_mul_pos_nonneg)
  then have vn: "float_nonneg (float_mul ?s (Fl ?L))" by (rule float_mul_pos_nonneg) simp
  have "float_le (float_add (Fl ?m) (Fl 0)) (float_add (float_mul fsize (Fl t)) ?s)"
    using _ _ en sn e float_nonneg_zero_le [OF sn] by (rule float_add_mono) simp_all
  then have a: "float_le (Fl ?m) (float_add (float_mul fsize (Fl t)) ?s)"
    by (simp only: float_add.simps add_0_right rm)
  have an: "float_nonneg (float_add (float_mul fsize (Fl t)) ?s)" using a m by (rule float_le_positive)
  have "float_le (float_add (Fl ?m) (Fl 0))
      (float_add (float_add (float_mul fsize (Fl t)) ?s) (float_mul ?s (Fl ?L)))"
    using _ _ an vn a float_nonneg_zero_le [OF vn] by (rule float_add_mono) simp_all
  then show ?thesis by (simp only: float_add.simps add_0_right rm literal_0_1)
qed

lemma py_max_nonneg_zero:
  assumes "float_nonneg peak" "videos = Fl 0 \<or> videos = NaN"
  shows "py_max peak (float_add videos videos) = peak"
  using assms by (cases peak) (auto simp add: py_max_def round_double_0)

lemma float_add_finite:
  assumes "float_add x y = Fl p" "float_nonneg x" "float_nonneg y"
  obtains a b where "x = Fl a" "y = Fl b" "0 \<le> a" "0 \<le> b" "round_double (a + b) = Fl p"
  using assms by (cases x; cases y) simp_all

lemma float_nonneg_not_PInf:
  assumes "float_nonneg x" "x \<noteq> PInf"
  obtains a where "x = Fl a" "0 \<le> a"
  using assms by (cases x) simp_all

lemma float_add_not_PInf:
  assumes "float_add x y \<noteq> PInf" "float_nonneg x" "float_nonneg y"
  shows "x \<noteq> PInf \<and> y \<noteq> PInf"
  using assms by (cases x; cases y) simp_all

lemma float_mul_not_PInf:
  assumes "float_mul x (Fl k) \<noteq> PInf" "float_nonneg x" "0 < k"
  shows "x \<noteq> PInf"
  using assms by (cases x) (simp_all add: inf_arith)

subsection \<open>The error of a rounding\<close>

lemma rounding_error:
  assumes "2 powi b \<le> x" "- 1022 \<le> b"
  shows "x * (1 - 1 / 2 ^ 53) \<le> round_unbounded x" and "round_unbounded x \<le> x * (1 + 1 / 2 ^ 53)"
proof -
  have pos: "0 < x" using assms(1) zero_less_power_int [of "2::real" b] by linarith
  then have ax: "\<bar>x\<bar> = x" by simp
  have "b \<le> binade x" using assms(1) ax by (intro binade_ge) simp
  then have e: "- 1022 \<le> binade x" using assms(2) by simp
  have u: "ulp x = 2 powi binade x / 2 powi 52" using e by (simp add: ulp_def two_powi_diff)
  have "2 powi binade x \<le> x" using binade_bounds(1) [of x] pos by simp
  then have "ulp x \<le> x / 2 powi 52" unfolding u by (rule divide_right_mono) simp
  then have half: "ulp x / 2 \<le> x / 2 ^ 53" by simp
  have "\<bar>real_of_int (round_half_even (x / ulp x)) - x / ulp x\<bar> * ulp x \<le> 1 / 2 * ulp x"
    using round_half_even_error [of "x / ulp x"] ulp_pos [of x] by (intro mult_right_mono) simp_all
  moreover have "\<bar>real_of_int (round_half_even (x / ulp x)) - x / ulp x\<bar> * ulp x =
      \<bar>round_unbounded x - x\<bar>"
  proof -
    have "\<bar>real_of_int (round_half_even (x / ulp x)) - x / ulp x\<bar> * ulp x =
        \<bar>(real_of_int (round_half_even (x / ulp x)) - x / ulp x) * ulp x\<bar>"
      using ulp_pos [of x] by (simp add: abs_mult)
    also have "(real_of_int (round_half_even (x / ulp x)) - x / ulp x) * ulp x =
        real_of_int (round_half_even (x / ulp x)) * ulp x - x"
      using ulp_pos [of x] by (simp add: left_diff_distrib)
    finally show ?thesis using pos by (simp add: round_unbounded_def)
  qed
  ultimately have "\<bar>round_unbounded x - x\<bar> \<le> x / 2 ^ 53" using half by linarith
  then have "x - x / 2 ^ 53 \<le> round_unbounded x" "round_unbounded x \<le> x + x / 2 ^ 53" by linarith+
  then show "x * (1 - 1 / 2 ^ 53) \<le> round_unbounded x" "round_unbounded x \<le> x * (1 + 1 / 2 ^ 53)"
    by (simp_all add: algebra_simps)
qed

lemma roundings_apart_refl: "roundings_apart 0 x x"
  by (simp add: roundings_apart_def)

lemma roundings_apart_round:
  assumes "roundings_apart k x y" "0 \<le> y" "2 powi b \<le> x" "- 1022 \<le> b" "n = Suc k"
  shows "roundings_apart n (round_unbounded x) y"
proof -
  let ?lo = "1 - 1 / 2 ^ 53 :: real" and ?hi = "1 + 1 / 2 ^ 53 :: real"
  have lo: "0 \<le> ?lo" and hi: "0 \<le> ?hi" by simp_all
  note r = rounding_error [OF assms(3,4)]
  have "y * ?lo ^ k * ?lo \<le> x * ?lo"
    using assms(1) lo unfolding roundings_apart_def by (intro mult_right_mono) simp_all
  with r(1) have 1: "y * ?lo ^ Suc k \<le> round_unbounded x" by (simp add: mult.assoc mult.commute)
  have "x * ?hi \<le> y * ?hi ^ k * ?hi"
    using assms(1) hi unfolding roundings_apart_def by (intro mult_right_mono) simp_all
  with r(2) have 2: "round_unbounded x \<le> y * ?hi ^ Suc k" by (simp add: mult.assoc mult.commute)
  from 1 2 show ?thesis unfolding roundings_apart_def assms(5) by simp
qed

lemma roundings_apart_mult:
  assumes "roundings_apart j a A" "roundings_apart k b B" "0 \<le> A" "0 \<le> B" "n = j + k"
  shows "roundings_apart n (a * b) (A * B)"
proof -
  let ?lo = "1 - 1 / 2 ^ 53 :: real" and ?hi = "1 + 1 / 2 ^ 53 :: real"
  have lo: "0 \<le> ?lo" and hi: "0 \<le> ?hi" by simp_all
  have a: "A * ?lo ^ j \<le> a" "a \<le> A * ?hi ^ j" and b: "B * ?lo ^ k \<le> b" "b \<le> B * ?hi ^ k"
    using assms(1,2) by (simp_all add: roundings_apart_def)
  have a0: "0 \<le> A * ?lo ^ j" and b0: "0 \<le> B * ?lo ^ k" using assms(3,4) lo by simp_all
  have "(A * ?lo ^ j) * (B * ?lo ^ k) \<le> a * b"
    using a(1) b(1) a0 b0 by (intro mult_mono) linarith+
  then have 1: "A * B * ?lo ^ (j + k) \<le> a * b" by (simp add: power_add mult_ac)
  have "a * b \<le> (A * ?hi ^ j) * (B * ?hi ^ k)"
    using a b a0 b0 by (intro mult_mono) linarith+
  then have 2: "a * b \<le> A * B * ?hi ^ (j + k)" by (simp add: power_add mult_ac)
  from 1 2 show ?thesis unfolding roundings_apart_def assms(5) by simp
qed

lemma roundings_apart_add:
  assumes "roundings_apart k a A" "roundings_apart k b B"
  shows "roundings_apart k (a + b) (A + B)"
  using assms unfolding roundings_apart_def by (simp add: distrib_right add_mono)

lemma roundings_apart_weaken:
  assumes "roundings_apart j x y" "j \<le> k" "0 \<le> y"
  shows "roundings_apart k x y"
proof -
  let ?lo = "1 - 1 / 2 ^ 53 :: real" and ?hi = "1 + 1 / 2 ^ 53 :: real"
  have "?lo ^ k \<le> ?lo ^ j" using assms(2) by (intro power_decreasing) simp_all
  then have "y * ?lo ^ k \<le> y * ?lo ^ j" using assms(3) by (rule mult_left_mono)
  moreover have "?hi ^ j \<le> ?hi ^ k" using assms(2) by (intro power_increasing) simp_all
  then have "y * ?hi ^ j \<le> y * ?hi ^ k" using assms(3) by (rule mult_left_mono)
  ultimately show ?thesis using assms(1) unfolding roundings_apart_def by linarith
qed

lemma five_roundings:
  assumes "roundings_apart 5 x y" "0 \<le> y"
  shows "\<bar>x - y\<bar> \<le> y / 2 ^ 50"
proof -
  have lo: "1 - 1 / 2 ^ 50 \<le> (1 - 1 / 2 ^ 53 :: real) ^ 5" by (simp add: power_divide)
  have hi: "(1 + 1 / 2 ^ 53 :: real) ^ 5 \<le> 1 + 1 / 2 ^ 50" by (simp add: power_divide)
  have "y * (1 - 1 / 2 ^ 50) \<le> y * (1 - 1 / 2 ^ 53) ^ 5" using lo assms(2) by (rule mult_left_mono)
  moreover have "y * (1 + 1 / 2 ^ 53) ^ 5 \<le> y * (1 + 1 / 2 ^ 50)" using hi assms(2) by (rule mult_left_mono)
  ultimately have "y * (1 - 1 / 2 ^ 50) \<le> x" "x \<le> y * (1 + 1 / 2 ^ 50)"
    using assms(1) unfolding roundings_apart_def by linarith+
  then have "y - y / 2 ^ 50 \<le> x" "x \<le> y + y / 2 ^ 50" by (simp_all add: algebra_simps)
  then show ?thesis by linarith
qed

lemma literal_0_1_error: "roundings_apart 1 (3602879701896397 / 36028797018963968) (1 / 10)"
  by (simp add: roundings_apart_def)

lemma round_double_Fl: "round_double x = Fl y \<Longrightarrow> y = round_unbounded x"
  by (cases x rule: round_double_cases) simp_all

lemma frame_size_doubled:
  assumes "round_unbounded q = q" "q = 0 \<or> 2 powi (- 20) \<le> \<bar>q\<bar>" "\<bar>q\<bar> \<le> 2 powi 1004"
  shows "round_double (q * 2) = Fl (2 * q)"
proof -
  have qn: "q = 0 \<or> - 1022 \<le> binade q"
  proof (cases "q = 0")
    case False
    with assms(2) have "- 20 \<le> binade q" by (intro binade_ge) simp
    then show ?thesis by simp
  qed simp
  have "round_unbounded (2 * q) = 2 * q" using round_unbounded_double [OF qn] assms(1) by simp
  moreover have "\<bar>2 * q\<bar> \<le> 2 powi 1023"
  proof -
    have "\<bar>2 * q\<bar> \<le> 2 * 2 powi 1004" using assms(3) by simp
    also have "\<dots> = 2 powi 1005" using two_powi_add [of 1 1004] by simp
    also have "\<dots> \<le> 2 powi 1023" by (rule two_powi_mono) simp
    finally show ?thesis .
  qed
  ultimately have "round_double (2 * q) = Fl (2 * q)" using round_double_finite [of "2 * q"] by simp
  then show ?thesis by (simp add: mult.commute)
qed

lemma peak_chunk_error:
  assumes q: "round_unbounded q = q" "2 powi (- 20) \<le> q" "q \<le> 2 powi 1004"
    and c: "1 \<le> c" and t: "t = round_unbounded (real_of_int c)"
    and fin: "float_add (float_add (float_mul (Fl q) (Fl t)) (float_mul (float_mul (Fl q) (Fl 2)) (Fl t)))
       (float_mul (float_mul (float_mul (Fl q) (Fl 2)) (Fl t)) (round_double 0.1)) = Fl p"
  shows "\<bar>p - 3.2 * q * real_of_int c\<bar> \<le> 3.2 * q * real_of_int c / 2 ^ 50"
proof -
  let ?c = "real_of_int c"
  let ?L = "3602879701896397 / 36028797018963968 :: real"
  let ?m = "(2::real) powi (- 20)"
  have m: "0 < ?m" by simp
  have qpos: "0 < q" using q(2) m by linarith
  have qabs: "q = 0 \<or> ?m \<le> \<bar>q\<bar>" "\<bar>q\<bar> \<le> 2 powi 1004" using q(2,3) qpos by simp_all
  have c1: "1 \<le> ?c" using c by simp
  have c0: "2 powi 0 \<le> ?c" using c1 by simp
  \<comment> \<open>the chunk size as a float\<close>
  have ta: "roundings_apart 1 t ?c"
    unfolding t by (rule roundings_apart_round [OF roundings_apart_refl _ c0]) (use c1 in simp_all)
  have "2 powi 0 \<le> \<bar>?c\<bar>" using c1 by simp
  then have "2 powi 0 \<le> \<bar>t\<bar>" unfolding t by (rule round_unbounded_abs_ge_power) simp
  moreover have "0 \<le> t" unfolding t using c1 by (intro round_unbounded_nonneg) simp
  ultimately have t1: "1 \<le> t" by simp
  \<comment> \<open>the extracted frames of one chunk\<close>
  define e where "e = round_unbounded (q * t)"
  have qt: "roundings_apart 1 (q * t) (q * ?c)"
    by (rule roundings_apart_mult [OF roundings_apart_refl ta]) (use qpos c1 in simp_all)
  have "?m * 1 \<le> q * t" using q(2) t1 by (intro mult_mono) simp_all
  then have qt_low: "?m \<le> q * t" by simp
  have qc0: "0 \<le> q * ?c" using qpos c1 by simp
  have ea: "roundings_apart 2 e (q * ?c)"
    unfolding e_def by (rule roundings_apart_round [OF qt qc0 qt_low]) simp_all
  have "?m \<le> \<bar>q * t\<bar>" using qt_low by simp
  then have "?m \<le> \<bar>e\<bar>" unfolding e_def by (rule round_unbounded_abs_ge_power) simp
  moreover have "0 \<le> e" unfolding e_def using qpos t1 by (intro round_unbounded_nonneg) simp
  ultimately have e_low: "?m \<le> e" by simp
  have zn: "q * t = 0 \<or> - 1022 \<le> binade (q * t)"
  proof -
    have "?m \<le> \<bar>q * t\<bar>" using qt_low by simp
    then have "- 20 \<le> binade (q * t)" by (rule binade_ge)
    then show ?thesis by simp
  qed
  \<comment> \<open>the float values behind the finite peak\<close>
  let ?E = "float_mul (Fl q) (Fl t)" and ?S = "float_mul (float_mul (Fl q) (Fl 2)) (Fl t)"
  have tpos: "0 < t" using t1 by simp
  have En: "float_nonneg ?E" by (rule float_mul_pos_nonneg [OF _ tpos]) (simp add: qpos less_imp_le)
  have "float_nonneg (float_mul (Fl q) (Fl 2))"
    by (rule float_mul_pos_nonneg) (simp_all add: qpos less_imp_le)
  then have Sn: "float_nonneg ?S" using tpos by (rule float_mul_pos_nonneg)
  have Vn: "float_nonneg (float_mul ?S (round_double 0.1))"
    unfolding literal_0_1 using Sn by (rule float_mul_pos_nonneg) simp
  have An: "float_nonneg (float_add ?E ?S)" using En Sn by (rule float_add_nonneg)
  from fin An Vn obtain a v where av: "float_add ?E ?S = Fl a" "float_mul ?S (round_double 0.1) = Fl v"
    "0 \<le> v" "round_double (a + v) = Fl p"
    by (rule float_add_finite)
  from av(1) En Sn obtain e' s where es: "?E = Fl e'" "?S = Fl s" "round_double (e' + s) = Fl a"
    by (rule float_add_finite)
  have e': "e' = e" using es(1) unfolding e_def by (intro round_double_Fl) simp
  have "?S = float_mul (Fl 2) ?E" using q(1) qabs(1,2) by (rule old_peaks_finite_frame(1)) (use t1 in auto)
  then have "round_double (2 * e) = Fl s" using es(1,2) e' by simp
  then have "s = round_unbounded (2 * e)" by (rule round_double_Fl)
  then have s: "s = 2 * e" unfolding e_def using round_unbounded_double_rounded [OF zn] by simp
  have a: "a = round_unbounded (e + s)" using es(3) e' by (intro round_double_Fl) simp
  have "round_double (s * ?L) = Fl v" using av(2) es(2) by (simp add: literal_0_1)
  then have v: "v = round_unbounded (s * ?L)" by (rule round_double_Fl)
  have p: "p = round_unbounded (a + v)" using av(4) by (rule round_double_Fl)
  \<comment> \<open>the roundings, one after the other\<close>
  have sa: "roundings_apart 2 s (2 * (q * ?c))"
    unfolding s by (rule roundings_apart_mult [OF roundings_apart_refl ea]) (use qc0 in simp_all)
  have esa: "roundings_apart 2 (e + s) (q * ?c + 2 * (q * ?c))" using ea sa by (rule roundings_apart_add)
  have es_low: "?m \<le> e + s" using e_low s by simp
  have aa: "roundings_apart 3 a (q * ?c + 2 * (q * ?c))"
    unfolding a by (rule roundings_apart_round [OF esa _ es_low]) (use qc0 in simp_all)
  have sl: "roundings_apart 3 (s * ?L) (2 * (q * ?c) * (1 / 10))"
    by (rule roundings_apart_mult [OF sa literal_0_1_error]) (use qc0 in simp_all)
  have "?m * 2 powi (- 4) \<le> s * ?L" using e_low s m by (intro mult_mono) simp_all
  then have sl_low: "2 powi (- 24) \<le> s * ?L" using two_powi_add [of "- 20" "- 4"] by simp
  have va: "roundings_apart 4 v (2 * (q * ?c) * (1 / 10))"
    unfolding v by (rule roundings_apart_round [OF sl _ sl_low]) (use qc0 in simp_all)
  have aa4: "roundings_apart 4 a (q * ?c + 2 * (q * ?c))"
    using aa _ by (rule roundings_apart_weaken) (simp_all add: qc0)
  have ava: "roundings_apart 4 (a + v) (q * ?c + 2 * (q * ?c) + 2 * (q * ?c) * (1 / 10))"
    using aa4 va by (rule roundings_apart_add)
  have "?m \<le> \<bar>e + s\<bar>" using es_low by simp
  then have "?m \<le> \<bar>a\<bar>" unfolding a by (rule round_unbounded_abs_ge_power) simp
  moreover have "0 \<le> a" unfolding a using es_low m by (intro round_unbounded_nonneg) linarith
  ultimately have av_low: "?m \<le> a + v" using av(3) by simp
  have total: "q * ?c + 2 * (q * ?c) + 2 * (q * ?c) * (1 / 10) = 3.2 * q * ?c" by simp
  have "roundings_apart 5 p (q * ?c + 2 * (q * ?c) + 2 * (q * ?c) * (1 / 10))"
    unfolding p by (rule roundings_apart_round [OF ava _ av_low]) (use qc0 in simp_all)
  then have "roundings_apart 5 p (3.2 * q * ?c)" by (simp only: total)
  moreover have "0 \<le> 3.2 * q * ?c" using qc0 by simp
  ultimately show ?thesis by (rule five_roundings)
qed

lemma zero_chunks: "1 \<le> c \<Longrightarrow> int_floordiv (0 + c - 1) c = Inr chunks \<Longrightarrow> chunks = 0"
  by (simp add: int_floordiv_Inr div_pos_pos_trivial)

lemma float_mul_zero:
  assumes "float_nonneg x"
  shows "float_mul x (Fl 0) = Fl 0 \<or> float_mul x (Fl 0) = NaN"
    and "x \<noteq> PInf \<Longrightarrow> float_mul x (Fl 0) = Fl 0"
  using assms by (cases x; simp add: round_double_0 inf_arith)+

subsection \<open>Operands at the top of the float range\<close>

lemma round_double_overflow:
  assumes "2 powi 1024 \<le> x"
  shows "round_double x = PInf"
proof -
  have "round_unbounded (2 powi 1024) \<le> round_unbounded x" using assms by (rule round_unbounded_mono)
  moreover have "round_unbounded (2 powi 1024) = 2 powi 1024" by (rule round_unbounded_power) simp
  ultimately have "2 powi 1024 \<le> round_unbounded x" by (simp only:)
  then show ?thesis by (simp add: round_double_def)
qed

lemma chunked_overflowing_product:
  "estimate_storage_chunked_approach 1920 1080
     (PyFloat (Fl (2 powi 1000))) (PyFloat (Fl (2 powi 1000))) 100 = Inl OverflowError"
proof -
  have "(2::real) powi 1024 \<le> 2 powi 2000" by (rule two_powi_mono) simp
  moreover have "(2::real) powi 2000 = 2 powi 1000 * 2 powi 1000"
    using two_powi_add [of 1000 1000] by simp
  ultimately have "2 powi 1024 \<le> (2::real) powi 1000 * 2 powi 1000" by (simp only:)
  then have "round_double (2 powi 1000 * 2 powi 1000) = PInf" by (rule round_double_overflow)
  then have 1: "num_mul (PyFloat (Fl (2 powi 1000))) (PyFloat (Fl (2 powi 1000))) = Inr (PyFloat PInf)"
    by (simp only: num_mul.simps float_mul.simps)
  have 2: "py_int (PyFloat PInf) = Inl OverflowError" by simp
  show ?thesis
    unfolding estimate_storage_chunked_approach_def
    by (simp only: 1 2 ebind_Inr ebind_Inl)
qed

lemma float_of_int_2_1023: "float_of_int (2 ^ 1023) = Inr (Fl (2 powi 1023))"
proof -
  have "real_of_int (2 ^ 1023) = 2 powi 1023" by simp
  moreover have "round_unbounded (2 powi 1023) = 2 powi 1023" by (rule round_unbounded_power) simp
  ultimately show ?thesis using float_of_int_returns [of "2 ^ 1023"] by simp
qed

lemma frame_times_2_1023:
  assumes "2 \<le> q"
  shows "float_mul_int (Fl q) (2 ^ 1023) = Inr PInf"
proof -
  have "2 * 2 powi 1023 \<le> q * 2 powi 1023" using assms by (intro mult_right_mono) simp_all
  moreover have "(2::real) powi 1024 = 2 * 2 powi 1023" using two_powi_add [of 1 1023] by simp
  ultimately have "2 powi 1024 \<le> q * 2 powi 1023" by (simp only:)
  then have "round_double (q * 2 powi 1023) = PInf" by (rule round_double_overflow)
  then show ?thesis
    by (simp only: float_mul_int_def float_of_int_2_1023 ebind_Inr float_mul.simps)
qed

lemma chunked_no_frames_huge_chunk:
  "estimate_storage_chunked_approach 1920 1080 (PyFloat (Fl (1 / 2))) (PyInt 1) (2 ^ 1023) =
     Inr \<lparr>total_frames = 0, frame_size_mb = Fl (3645 / 512),
           total_peak_mb = PInf, total_chunks = 0,
           chunk_size = 2 ^ 1023, peak_chunk_mb = PInf,
           max_chunk_videos_mb = NaN\<rparr>"
proof -
  have 1: "num_mul (PyFloat (Fl (1 / 2))) (PyInt 1) = Inr (PyFloat (Fl (1 / 2)))"
    by (simp add: op_eval fl_eval cong: ebind_weak_cong let_weak_cong)
  have 2: "py_int (PyFloat (Fl (1 / 2))) = Inr 0" by (simp add: trunc_toward_zero_def)
  have 3: "int_floordiv (0 + 2 ^ 1023 - 1) (2 ^ 1023) = Inr 0"
    by (simp add: int_floordiv_def div_pos_pos_trivial)
  have 4: "int_mul_float (1920 * 1080 * 3) (round_double 1.2) = Inr (Fl 7464960)"
    by (simp add: op_eval fl_eval cong: ebind_weak_cong let_weak_cong)
  have 5: "float_div_int (Fl 7464960) (1024 * 1024) = Inr (Fl (3645 / 512))"
    by (simp add: op_eval fl_eval cong: ebind_weak_cong let_weak_cong)
  have 6: "float_mul_int (Fl (3645 / 512)) (2 ^ 1023) = Inr PInf" by (rule frame_times_2_1023) simp
  have 7: "float_mul_int (Fl (3645 / 512)) 2 = Inr (Fl (3645 / 256))"
    by (simp add: op_eval fl_eval cong: ebind_weak_cong let_weak_cong)
  have 8: "float_mul_int (Fl (3645 / 256)) (2 ^ 1023) = Inr PInf" by (rule frame_times_2_1023) simp
  have 9: "float_mul PInf (round_double 0.1) = PInf" by (simp add: literal_0_1 inf_arith)
  have 10: "float_mul_int PInf 0 = Inr NaN"
    by (simp add: float_mul_int_def float_of_int_0 ebind_Inr inf_arith)
  have 11: "py_max PInf (float_add NaN NaN) = PInf"
    "float_add (float_add PInf PInf) PInf = PInf"
    by (simp_all add: py_max_def)
  show ?thesis
    unfolding estimate_storage_chunked_approach_def
    by (simp only: 1 2 3 4 5 6 7 8 9 10 11 ebind_Inr Let_def)
qed

section \<open>The four scenarios of the report\<close>

text \<open>
  The estimates of the four scenarios, evaluated step by step.
\<close>

lemma old_1080p_10min:
  "estimate_storage_old_approach 1920 1080 (PyInt 30) (PyInt 600) =
     Inr \<lparr>total_frames = 18000, frame_size_mb = Fl (3645 / 512), total_peak_mb = Fl (12301875 / 32),
           extracted_frames_mb = Fl (4100625 / 32), sbs_frames_mb = Fl (4100625 / 16)\<rparr>"
  by (simp add: est_eval cong: ebind_weak_cong let_weak_cong)

lemma chunked_100_1080p_10min:
  "estimate_storage_chunked_approach 1920 1080 (PyInt 30) (PyInt 600) 100 =
     Inr \<lparr>total_frames = 18000, frame_size_mb = Fl (3645 / 512), total_peak_mb = Fl (820125 / 16),
           total_chunks = 180, chunk_size = 100, peak_chunk_mb = Fl (18225 / 8),
           max_chunk_videos_mb = Fl (820125 / 32)\<rparr>"
  by (simp add: est_eval cong: ebind_weak_cong let_weak_cong)

lemma chunked_50_1080p_10min:
  "estimate_storage_chunked_approach 1920 1080 (PyInt 30) (PyInt 600) 50 =
     Inr \<lparr>total_frames = 18000, frame_size_mb = Fl (3645 / 512), total_peak_mb = Fl (820125 / 16),
           total_chunks = 360, chunk_size = 50, peak_chunk_mb = Fl (18225 / 16),
           max_chunk_videos_mb = Fl (820125 / 32)\<rparr>"
  by (simp add: est_eval cong: ebind_weak_cong let_weak_cong)

lemma old_4k_30fps_10min:
  "estimate_storage_old_approach 3840 2160 (PyInt 30) (PyInt 600) =
     Inr \<lparr>total_frames = 18000, frame_size_mb = Fl (3645 / 128), total_peak_mb = Fl (12301875 / 8),
           extracted_frames_mb = Fl (4100625 / 8), sbs_frames_mb = Fl (4100625 / 4)\<rparr>"
  by (simp add: est_eval cong: ebind_weak_cong let_weak_cong)

lemma chunked_100_4k_30fps_10min:
  "estimate_storage_chunked_approach 3840 2160 (PyInt 30) (PyInt 600) 100 =
     Inr \<lparr>total_frames = 18000, frame_size_mb = Fl (3645 / 128), total_peak_mb = Fl (820125 / 4),
           total_chunks = 180, chunk_size = 100, peak_chunk_mb = Fl (18225 / 2),
           max_chunk_videos_mb = Fl (820125 / 8)\<rparr>"
  by (simp add: est_eval cong: ebind_weak_cong let_weak_cong)

lemma chunked_50_4k_30fps_10min:
  "estimate_storage_chunked_approach 3840 2160 (PyInt 30) (PyInt 600) 50 =
     Inr \<lparr>total_frames = 18000, frame_size_mb = Fl (3645 / 128), total_peak_mb = Fl (820125 / 4),
           total_chunks = 360, chunk_size = 50, peak_chunk_mb = Fl (18225 / 4),
           max_chunk_videos_mb = Fl (820125 / 8)\<rparr>"
  by (simp add: est_eval cong: ebind_weak_cong let_weak_cong)

lemma old_4k_60fps_10min:
  "estimate_storage_old_approach 3840 2160 (PyInt 60) (PyInt 600) =
     Inr \<lparr>total_frames = 36000, frame_size_mb = Fl (3645 / 128), total_peak_mb = Fl (12301875 / 4),
           extracted_frames_mb = Fl (4100625 / 4), sbs_frames_mb = Fl (4100625 / 2)\<rparr>"
  by (simp add: est_eval cong: ebind_weak_cong let_weak_cong)

lemma chunked_100_4k_60fps_10min:
  "estimate_storage_chunked_approach 3840 2160 (PyInt 60) (PyInt 600) 100 =
     Inr \<lparr>total_frames = 36000, frame_size_mb = Fl (3645 / 128), total_peak_mb = Fl (820125 / 2),
           total_chunks = 360, chunk_size = 100, peak_chunk_mb = Fl (18225 / 2),
           max_chunk_videos_mb = Fl (820125 / 4)\<rparr>"
  by (simp add: est_eval cong: ebind_weak_cong let_weak_cong)

lemma chunked_50_4k_60fps_10min:
  "estimate_storage_chunked_approach 3840 2160 (PyInt 60) (PyInt 600) 50 =
     Inr \<lparr>total_frames = 36000, frame_size_mb = Fl (3645 / 128), total_peak_mb = Fl (820125 / 2),
           total_chunks = 720, chunk_size = 50, peak_chunk_mb = Fl (18225 / 4),
           max_chunk_videos_mb = Fl (820125 / 4)\<rparr>"
  by (simp add: est_eval cong: ebind_weak_cong let_weak_cong)

lemma old_1080p_1hour:
  "estimate_storage_old_approach 1920 1080 (PyInt 30) (PyInt 3600) =
     Inr \<lparr>total_frames = 108000, frame_size_mb = Fl (3645 / 512), total_peak_mb = Fl (36905625 / 16),
           extracted_frames_mb = Fl (12301875 / 16), sbs_frames_mb = Fl (12301875 / 8)\<rparr>"
  by (simp add: est_eval cong: ebind_weak_cong let_weak_cong)

lemma chunked_100_1080p_1hour:
  "estimate_storage_chunked_approach 1920 1080 (PyInt 30) (PyInt 3600) 100 =
     Inr \<lparr>total_frames = 108000, frame_size_mb = Fl (3645 / 512), total_peak_mb = Fl (2460375 / 8),
           total_chunks = 1080, chunk_size = 100, peak_chunk_mb = Fl (18225 / 8),
           max_chunk_videos_mb = Fl (2460375 / 16)\<rparr>"
  by (simp add: est_eval cong: ebind_weak_cong let_weak_cong)

lemma chunked_50_1080p_1hour:
  "estimate_storage_chunked_approach 1920 1080 (PyInt 30) (PyInt 3600) 50 =
     Inr \<lparr>total_frames = 108000, frame_size_mb = Fl (3645 / 512), total_peak_mb = Fl (2460375 / 8),
           total_chunks = 2160, chunk_size = 50, peak_chunk_mb = Fl (18225 / 16),
           max_chunk_videos_mb = Fl (2460375 / 16)\<rparr>"
  by (simp add: est_eval cong: ebind_weak_cong let_weak_cong)

lemma savings_value:
  "storage_savings (Fl (12301875 / 32)) (Fl (820125 / 16)) = Inr (Fl (6098624495397547 / 70368744177664))"
  "storage_savings (Fl (12301875 / 8)) (Fl (820125 / 4)) = Inr (Fl (6098624495397547 / 70368744177664))"
  "storage_savings (Fl (12301875 / 4)) (Fl (820125 / 2)) = Inr (Fl (6098624495397547 / 70368744177664))"
  "storage_savings (Fl (36905625 / 16)) (Fl (2460375 / 8)) = Inr (Fl (6098624495397547 / 70368744177664))"
  by (simp_all add: storage_savings_def op_eval fl_eval cong: ebind_weak_cong let_weak_cong)

lemmas scenario_values =
  old_1080p_10min chunked_100_1080p_10min chunked_50_1080p_10min
  old_4k_30fps_10min chunked_100_4k_30fps_10min chunked_50_4k_30fps_10min
  old_4k_60fps_10min chunked_100_4k_60fps_10min chunked_50_4k_60fps_10min
  old_1080p_1hour chunked_100_1080p_1hour chunked_50_1080p_1hour

text \<open>Two calls with a float frame rate.\<close>

lemma old_23_5_fps:
  "estimate_storage_old_approach 1920 1080 (PyFloat (Fl (47 / 2))) (PyInt 3) =
     Inr \<lparr>total_frames = 70, frame_size_mb = Fl (3645 / 512), total_peak_mb = Fl (382725 / 256),
           extracted_frames_mb = Fl (127575 / 256), sbs_frames_mb = Fl (127575 / 128)\<rparr>"
  by (simp add: est_eval cong: ebind_weak_cong let_weak_cong)

lemma chunked_23_5_fps:
  "estimate_storage_chunked_approach 1920 1080 (PyFloat (Fl (47 / 2))) (PyInt 3) 100 =
     Inr \<lparr>total_frames = 70, frame_size_mb = Fl (3645 / 512), total_peak_mb = Fl (18225 / 8),
           total_chunks = 1, chunk_size = 100, peak_chunk_mb = Fl (18225 / 8),
           max_chunk_videos_mb = Fl (18225 / 128)\<rparr>"
  by (simp add: est_eval cong: ebind_weak_cong let_weak_cong)

lemma old_30_0_fps:
  "estimate_storage_old_approach 1920 1080 (PyFloat (Fl 30)) (PyInt 600) =
     Inr \<lparr>total_frames = 18000, frame_size_mb = Fl (3645 / 512), total_peak_mb = Fl (12301875 / 32),
           extracted_frames_mb = Fl (4100625 / 32), sbs_frames_mb = Fl (4100625 / 16)\<rparr>"
  by (simp add: est_eval cong: ebind_weak_cong let_weak_cong)

lemma chunked_30_0_fps:
  "estimate_storage_chunked_approach 1920 1080 (PyFloat (Fl 30)) (PyInt 600) 100 =
     Inr \<lparr>total_frames = 18000, frame_size_mb = Fl (3645 / 512), total_peak_mb = Fl (820125 / 16),
           total_chunks = 180, chunk_size = 100, peak_chunk_mb = Fl (18225 / 8),
           max_chunk_videos_mb = Fl (820125 / 32)\<rparr>"
  by (simp add: est_eval cong: ebind_weak_cong let_weak_cong)

text \<open>A profile of half a second at one frame per second: no frame at all.\<close>

lemma chunked_no_frames_1366:
  "estimate_storage_chunked_approach 1366 768 (PyFloat (Fl (1 / 2))) (PyInt 1) 1 =
     Inr \<lparr>total_frames = 0, frame_size_mb = Fl (4055218785563443 / 1125899906842624),
           total_peak_mb = Fl (1622087514225377 / 140737488355328), total_chunks = 0,
           chunk_size = 1, peak_chunk_mb = Fl (1622087514225377 / 140737488355328),
           max_chunk_videos_mb = Fl 0\<rparr>"
  by (simp add: est_eval cong: ebind_weak_cong let_weak_cong)

lemma old_no_frames_1366:
  "estimate_storage_old_approach 1366 768 (PyFloat (Fl (1 / 2))) (PyInt 1) =
     Inr \<lparr>total_frames = 0, frame_size_mb = Fl (4055218785563443 / 1125899906842624),
           total_peak_mb = Fl 0, extracted_frames_mb = Fl 0, sbs_frames_mb = Fl 0\<rparr>"
  by (simp add: est_eval cong: ebind_weak_cong let_weak_cong)

text \<open>The frame size of a 1920x1080 frame.\<close>

lemma bytes_1080p: "int_mul_float (1920 * 1080 * 3) (round_double 1.2) = Inr (Fl 7464960)"
  by (simp add: op_eval fl_eval cong: ebind_weak_cong let_weak_cong)

lemma mebibytes_1080p: "float_div_int (Fl 7464960) (1024 * 1024) = Inr (Fl (3645 / 512))"
  by (simp add: op_eval fl_eval cong: ebind_weak_cong let_weak_cong)


section \<open>Claims\<close>

text \<open>
  C1. In each of the four scenarios of the report (1920x1080 at 30 fps for 600 s,
  3840x2160 at 30 fps for 600 s, 3840x2160 at 60 fps for 600 s, 1920x1080 at 30 fps for
  3600 s) both estimators return, and the total peak of the chunked estimate is strictly
  below the total peak of the old estimate, for chunk size 100 and for chunk size 50. The
  report itself is produced, has four rows, and every savings percentage in it is strictly
  positive.
\<close>

theorem chunked_peak_below_old_in_every_scenario:
  "peak_below (estimate_storage_chunked_approach 1920 1080 (PyInt 30) (PyInt 600) 100)
     (estimate_storage_old_approach 1920 1080 (PyInt 30) (PyInt 600)) \<and>
   peak_below (estimate_storage_chunked_approach 1920 1080 (PyInt 30) (PyInt 600) 50)
     (estimate_storage_old_approach 1920 1080 (PyInt 30) (PyInt 600)) \<and>
   peak_below (estimate_storage_chunked_approach 3840 2160 (PyInt 30) (PyInt 600) 100)
     (estimate_storage_old_approach 3840 2160 (PyInt 30) (PyInt 600)) \<and>
   peak_below (estimate_storage_chunked_approach 3840 2160 (PyInt 30) (PyInt 600) 50)
     (estimate_storage_old_approach 3840 2160 (PyInt 30) (PyInt 600)) \<and>
   peak_below (estimate_storage_chunked_approach 3840 2160 (PyInt 60) (PyInt 600) 100)
     (estimate_storage_old_approach 3840 2160 (PyInt 60) (PyInt 600)) \<and>
   peak_below (estimate_storage_chunked_approach 3840 2160 (PyInt 60) (PyInt 600) 50)
     (estimate_storage_old_approach 3840 2160 (PyInt 60) (PyInt 600)) \<and>
   peak_below (estimate_storage_chunked_approach 1920 1080 (PyInt 30) (PyInt 3600) 100)
     (estimate_storage_old_approach 1920 1080 (PyInt 30) (PyInt 3600)) \<and>
   peak_below (estimate_storage_chunked_approach 1920 1080 (PyInt 30) (PyInt 3600) 50)
     (estimate_storage_old_approach 1920 1080 (PyInt 30) (PyInt 3600)) \<and>
   (\<exists>rows. print_comparison = Inr rows \<and> length rows = 4 \<and> list_all chunked_saves rows)"
proof -
  have rows: "\<exists>rows. print_comparison = Inr rows \<and> length rows = 4 \<and> list_all chunked_saves rows"
    by (simp add: print_comparison_def scenarios_def scenario_values savings_value
        ebind_Inr chunked_saves_def float_lt_def)
  have peaks: "peak_below (estimate_storage_chunked_approach 1920 1080 (PyInt 30) (PyInt 600) 100)
       (estimate_storage_old_approach 1920 1080 (PyInt 30) (PyInt 600))"
    "peak_below (estimate_storage_chunked_approach 1920 1080 (PyInt 30) (PyInt 600) 50)
       (estimate_storage_old_approach 1920 1080 (PyInt 30) (PyInt 600))"
    "peak_below (estimate_storage_chunked_approach 3840 2160 (PyInt 30) (PyInt 600) 100)
       (estimate_storage_old_approach 3840 2160 (PyInt 30) (PyInt 600))"
    "peak_below (estimate_storage_chunked_approach 3840 2160 (PyInt 30) (PyInt 600) 50)
       (estimate_storage_old_approach 3840 2160 (PyInt 30) (PyInt 600))"
    "peak_below (estimate_storage_chunked_approach 3840 2160 (PyInt 60) (PyInt 600) 100)
       (estimate_storage_old_approach 3840 2160 (PyInt 60) (PyInt 600))"
    "peak_below (estimate_storage_chunked_approach 3840 2160 (PyInt 60) (PyInt 600) 50)
       (estimate_storage_old_approach 3840 2160 (PyInt 60) (PyInt 600))"
    "peak_below (estimate_storage_chunked_approach 1920 1080 (PyInt 30) (PyInt 3600) 100)
       (estimate_storage_old_approach 1920 1080 (PyInt 30) (PyInt 3600))"
    "peak_below (estimate_storage_chunked_approach 1920 1080 (PyInt 30) (PyInt 3600) 50)
       (estimate_storage_old_approach 1920 1080 (PyInt 30) (PyInt 3600))"
    by (simp_all add: scenario_values peak_below_def float_lt_def)
  from peaks rows show ?thesis by (intro conjI)
qed

text \<open>
  C2. Whenever the chunked estimator returns, the peaks it reports are the ones the
  formulas of the specification give for the reported frame size, chunk size and number
  of chunks: \<open>totalPeakMb = max(peakChunkMb, maxChunkVideosMb + finalVideoMb)\<close> with
  \<open>finalVideoMb = maxChunkVideosMb\<close>, \<open>peakChunkMb = chunkExtractedMb + chunkSbsMb + chunkVideoMb\<close>,
  \<open>chunkExtractedMb = frameSizeMb * chunkSize\<close>, \<open>chunkSbsMb = 2 * frameSizeMb * chunkSize\<close>,
  \<open>chunkVideoMb = 0.1 * chunkSbsMb\<close> and \<open>maxChunkVideosMb = chunkVideoMb * totalChunks\<close>.
  The code multiplies in another operand order; float multiplication commutes.
\<close>

theorem chunked_total_peak_formula:
  assumes "estimate_storage_chunked_approach width height fps duration_seconds c = Inr r"
  shows "chunk_size r = c \<and>
         spec_chunked_peaks (frame_size_mb r) (chunk_size r) (total_chunks r) =
           Inr (peak_chunk_mb r, max_chunk_videos_mb r, total_peak_mb r)"
proof -
  from assms obtain chunks fsize extracted doubled sbs videos where h:
    "float_mul_int fsize c = Inr extracted"
    "float_mul_int fsize 2 = Inr doubled"
    "float_mul_int doubled c = Inr sbs"
    "float_mul_int (float_mul sbs (round_double 0.1)) chunks = Inr videos"
    and r: "r = \<lparr>total_frames = total_frames r, frame_size_mb = fsize,
           total_peak_mb =
             py_max (float_add (float_add extracted sbs) (float_mul sbs (round_double 0.1)))
               (float_add videos videos),
           total_chunks = chunks, chunk_size = c,
           peak_chunk_mb = float_add (float_add extracted sbs) (float_mul sbs (round_double 0.1)),
           max_chunk_videos_mb = videos\<rparr>"
    by (elim chunked_approach_InrE) simp
  have f: "frame_size_mb r = fsize" "chunk_size r = c" "total_chunks r = chunks"
    "max_chunk_videos_mb r = videos"
    "peak_chunk_mb r = float_add (float_add extracted sbs) (float_mul sbs (round_double 0.1))"
    "total_peak_mb r =
       py_max (float_add (float_add extracted sbs) (float_mul sbs (round_double 0.1)))
         (float_add videos videos)"
    by (subst r, simp)+
  have v: "float_mul (round_double 0.1) sbs = float_mul sbs (round_double 0.1)"
    by (rule float_mul_commute)
  show ?thesis
    unfolding f spec_chunked_peaks_def int_mul_float_commute
    by (simp only: h ebind_Inr Let_def v)
qed

theorem chunked_total_peak_formula_witness:
  "estimate_storage_chunked_approach 1920 1080 (PyInt 30) (PyInt 600) 100 =
     Inr \<lparr>total_frames = 18000, frame_size_mb = Fl (3645 / 512), total_peak_mb = Fl (820125 / 16),
           total_chunks = 180, chunk_size = 100, peak_chunk_mb = Fl (18225 / 8),
           max_chunk_videos_mb = Fl (820125 / 32)\<rparr> \<and>
   spec_chunked_peaks (Fl (3645 / 512)) 100 180 =
     Inr (Fl (18225 / 8), Fl (820125 / 32), Fl (820125 / 16))"
  using chunked_total_peak_formula [OF chunked_100_1080p_10min] chunked_100_1080p_10min
  by simp

text \<open>
  C3. For width 1920 and height 1080 the frame size computed by either estimator is
  exactly 7.119140625 MB, whatever the other arguments: the product 6220800 * 1.2 rounds
  to 7464960, and 7464960 / 1048576 is a float. That is 7.12 MB to within 0.01, and not
  within 0.01 of 7.13.
\<close>

theorem frame_size_1080p:
  "(estimate_storage_old_approach 1920 1080 fps duration_seconds = Inr r \<longrightarrow>
      frame_size_mb r = Fl (3645 / 512)) \<and>
   (estimate_storage_chunked_approach 1920 1080 fps duration_seconds c = Inr r' \<longrightarrow>
      frame_size_mb r' = Fl (3645 / 512)) \<and>
   within_tolerance (Fl (3645 / 512)) 7.12 0.01"
proof (intro conjI impI)
  assume "estimate_storage_old_approach 1920 1080 fps duration_seconds = Inr r"
  then obtain bytes fsize where
    "int_mul_float (1920 * 1080 * 3) (round_double 1.2) = Inr bytes"
    "float_div_int bytes (1024 * 1024) = Inr fsize" "frame_size_mb r = fsize"
    by (elim old_approach_InrE) simp
  then show "frame_size_mb r = Fl (3645 / 512)"
    using bytes_1080p mebibytes_1080p by simp
next
  assume "estimate_storage_chunked_approach 1920 1080 fps duration_seconds c = Inr r'"
  then obtain bytes fsize where
    "int_mul_float (1920 * 1080 * 3) (round_double 1.2) = Inr bytes"
    "float_div_int bytes (1024 * 1024) = Inr fsize" "frame_size_mb r' = fsize"
    by (elim chunked_approach_InrE) simp
  then show "frame_size_mb r' = Fl (3645 / 512)"
    using bytes_1080p mebibytes_1080p by simp
next
  show "within_tolerance (Fl (3645 / 512)) 7.12 0.01"
    by (simp add: within_tolerance_def)
qed

theorem frame_size_1080p_witness:
  "estimate_storage_old_approach 1920 1080 (PyInt 30) (PyInt 600) =
     Inr \<lparr>total_frames = 18000, frame_size_mb = Fl (3645 / 512), total_peak_mb = Fl (12301875 / 32),
           extracted_frames_mb = Fl (4100625 / 32), sbs_frames_mb = Fl (4100625 / 16)\<rparr> \<and>
   estimate_storage_chunked_approach 1920 1080 (PyInt 30) (PyInt 600) 100 =
     Inr \<lparr>total_frames = 18000, frame_size_mb = Fl (3645 / 512), total_peak_mb = Fl (820125 / 16),
           total_chunks = 180, chunk_size = 100, peak_chunk_mb = Fl (18225 / 8),
           max_chunk_videos_mb = Fl (820125 / 32)\<rparr> \<and>
   within_tolerance (Fl (3645 / 512)) 7.12 0.01"
  using old_1080p_10min chunked_100_1080p_10min
    frame_size_1080p [of "PyInt 30" "PyInt 600"
      "\<lparr>total_frames = 18000, frame_size_mb = Fl (3645 / 512), total_peak_mb = Fl (12301875 / 32),
           extracted_frames_mb = Fl (4100625 / 32), sbs_frames_mb = Fl (4100625 / 16)\<rparr>"
      100
      "\<lparr>total_frames = 18000, frame_size_mb = Fl (3645 / 512), total_peak_mb = Fl (820125 / 16),
           total_chunks = 180, chunk_size = 100, peak_chunk_mb = Fl (18225 / 8),
           max_chunk_videos_mb = Fl (820125 / 32)\<rparr>"]
  by simp

theorem frame_size_1080p_not_7_13:
  "map_sum id frame_size_mb (estimate_storage_old_approach 1920 1080 (PyInt 30) (PyInt 600)) =
     Inr (Fl (3645 / 512)) \<and>
   map_sum id frame_size_mb (estimate_storage_chunked_approach 1920 1080 (PyInt 30) (PyInt 600) 100) =
     Inr (Fl (3645 / 512)) \<and>
   \<not> within_tolerance (Fl (3645 / 512)) 7.13 0.01"
  by (simp add: old_1080p_10min chunked_100_1080p_10min within_tolerance_def)

text \<open>
  C4. Whenever the old-approach estimator returns, \<open>sbs_frames_mb\<close> is
  \<open>2 * extracted_frames_mb\<close>, \<open>total_peak_mb\<close> is their sum, and \<open>total_peak_mb\<close> is
  \<open>3 * extracted_frames_mb\<close>, all as float results: doubling a float is exact, so the
  sum is the rounding of three times the extracted size. Overflow to an infinity and
  the NaN of an infinite frame size with no frames keep the equalities.
\<close>

theorem old_total_peak_is_triple:
  assumes "estimate_storage_old_approach width height fps duration_seconds = Inr r"
  shows "int_mul_float 2 (extracted_frames_mb r) = Inr (sbs_frames_mb r) \<and>
         total_peak_mb r = float_add (extracted_frames_mb r) (sbs_frames_mb r) \<and>
         int_mul_float 3 (extracted_frames_mb r) = Inr (total_peak_mb r)"
proof -
  from assms obtain frames bytes fsize extracted doubled sbs where h:
    "int_mul_float (width * height * 3) (round_double 1.2) = Inr bytes"
    "float_div_int bytes (1024 * 1024) = Inr fsize"
    "float_mul_int fsize frames = Inr extracted"
    "float_mul_int fsize 2 = Inr doubled"
    "float_mul_int doubled frames = Inr sbs"
    and r: "extracted_frames_mb r = extracted" "sbs_frames_mb r = sbs"
    "total_peak_mb r = float_add extracted sbs"
    by (elim old_approach_InrE) simp
  from h(3) obtain y where y: "float_of_int frames = Inr y" "extracted = float_mul fsize y"
    by (auto simp add: float_mul_int_def ebind_eq_Inr)
  from y(1) obtain t where t: "y = Fl t" "t = 0 \<or> 1 \<le> \<bar>t\<bar>" by (rule float_of_int_shape)
  have e: "extracted = float_mul fsize (Fl t)" using y(2) t(1) by simp
  have d: "doubled = float_mul fsize (Fl 2)"
    using h(4) by (simp add: float_mul_int_def float_of_int_2 ebind_Inr)
  have s: "sbs = float_mul (float_mul fsize (Fl 2)) (Fl t)"
    using h(5) y(1) t(1) d by (simp add: float_mul_int_def ebind_Inr)
  have both: "sbs = float_mul (Fl 2) extracted \<and>
      float_add extracted (float_mul (Fl 2) extracted) = float_mul (Fl 3) extracted"
    using h(1,2)
  proof (cases rule: frame_size_cases)
    case (finite q)
    then show ?thesis using old_peaks_finite_frame [OF finite(2,3,4) t(2)] by (simp add: e s)
  next
    case pinf
    then show ?thesis using old_peaks_infinite_frame [of fsize t] by (simp add: e s)
  next
    case ninf
    then show ?thesis using old_peaks_infinite_frame [of fsize t] by (simp add: e s)
  qed
  have "int_mul_float 2 extracted = Inr (float_mul (Fl 2) extracted)"
    "int_mul_float 3 extracted = Inr (float_mul (Fl 3) extracted)"
    by (simp_all add: int_mul_float_def float_of_int_2 float_of_int_3 ebind_Inr)
  with both r show ?thesis by simp
qed

theorem old_total_peak_is_triple_witness:
  "estimate_storage_old_approach 1920 1080 (PyInt 30) (PyInt 600) =
     Inr \<lparr>total_frames = 18000, frame_size_mb = Fl (3645 / 512), total_peak_mb = Fl (12301875 / 32),
           extracted_frames_mb = Fl (4100625 / 32), sbs_frames_mb = Fl (4100625 / 16)\<rparr> \<and>
   int_mul_float 2 (Fl (4100625 / 32)) = Inr (Fl (4100625 / 16)) \<and>
   Fl (12301875 / 32) = float_add (Fl (4100625 / 32)) (Fl (4100625 / 16)) \<and>
   int_mul_float 3 (Fl (4100625 / 32)) = Inr (Fl (12301875 / 32))"
  using old_total_peak_is_triple [OF old_1080p_10min] old_1080p_10min by simp

text \<open>
  C5. Whenever the chunked estimator returns for a chunk size of at least 1, its
  \<open>total_chunks\<close> is \<open>(total_frames + chunk_size - 1) // chunk_size\<close>, which is the ceiling of
  \<open>total_frames / chunk_size\<close>: \<open>total_chunks * chunk_size \<ge> total_frames\<close> and
  \<open>(total_chunks - 1) * chunk_size < total_frames\<close>. This holds for every frame count, and so
  for the non-negative ones of the claim.
\<close>

theorem total_chunks_is_ceiling:
  assumes "estimate_storage_chunked_approach width height fps duration_seconds c = Inr r"
    and "1 \<le> c"
  shows "total_chunks r = (total_frames r + c - 1) div c \<and>
         total_chunks r = \<lceil>real_of_int (total_frames r) / real_of_int c\<rceil> \<and>
         total_frames r \<le> total_chunks r * c \<and>
         (total_chunks r - 1) * c < total_frames r"
proof -
  from assms(1) obtain frames chunks where
    "int_floordiv (frames + c - 1) c = Inr chunks" "total_frames r = frames" "total_chunks r = chunks"
    by (elim chunked_approach_InrE) simp
  then have "total_chunks r = (total_frames r + c - 1) div c"
    by (simp add: int_floordiv_Inr)
  then show ?thesis using ceiling_division [OF assms(2), of "total_frames r"] by simp
qed

theorem total_chunks_is_ceiling_witness:
  "estimate_storage_chunked_approach 1920 1080 (PyInt 30) (PyInt 600) 100 =
     Inr \<lparr>total_frames = 18000, frame_size_mb = Fl (3645 / 512), total_peak_mb = Fl (820125 / 16),
           total_chunks = 180, chunk_size = 100, peak_chunk_mb = Fl (18225 / 8),
           max_chunk_videos_mb = Fl (820125 / 32)\<rparr> \<and>
   (1::int) \<le> 100 \<and>
   (180::int) = (18000 + 100 - 1) div 100 \<and>
   (180::int) = \<lceil>real_of_int 18000 / real_of_int 100\<rceil> \<and>
   (18000::int) \<le> 180 * 100 \<and> ((180::int) - 1) * 100 < 18000"
  using total_chunks_is_ceiling [OF chunked_100_1080p_10min] chunked_100_1080p_10min
  by simp

text \<open>
  C6. For a fixed profile with positive width and height and a non-negative frame rate
  and duration, and chunk sizes \<open>1 \<le> c2 \<le> c1\<close>: when the chunked estimator returns for
  both, \<open>peak_chunk_mb\<close> at \<open>c2\<close> is at most \<open>peak_chunk_mb\<close> at \<open>c1\<close> (Python's \<open><=\<close>
  on floats), and \<open>total_chunks\<close> at \<open>c2\<close> is at least \<open>total_chunks\<close> at \<open>c1\<close>. Rounding
  to the nearest float is monotone, so every step of the peak is.
\<close>

theorem smaller_chunks_lower_peak_more_chunks:
  assumes "estimate_storage_chunked_approach width height fps duration_seconds c1 = Inr r1"
    and "estimate_storage_chunked_approach width height fps duration_seconds c2 = Inr r2"
    and "0 < width" "0 < height" "num_nonneg fps" "num_nonneg duration_seconds"
    and "1 \<le> c2" "c2 \<le> c1"
  shows "float_le (peak_chunk_mb r2) (peak_chunk_mb r1) \<and> total_chunks r1 \<le> total_chunks r2"
proof -
  from assms(1) obtain product frames chunks bytes fsize extracted doubled sbs where a:
    "num_mul fps duration_seconds = Inr product" "py_int product = Inr frames"
    "int_floordiv (frames + c1 - 1) c1 = Inr chunks"
    "int_mul_float (width * height * 3) (round_double 1.2) = Inr bytes"
    "float_div_int bytes (1024 * 1024) = Inr fsize"
    "float_mul_int fsize c1 = Inr extracted"
    "float_mul_int fsize 2 = Inr doubled"
    "float_mul_int doubled c1 = Inr sbs"
    "total_chunks r1 = chunks"
    "peak_chunk_mb r1 = float_add (float_add extracted sbs) (float_mul sbs (round_double 0.1))"
    by (elim chunked_approach_InrE) simp
  from assms(2) obtain product' frames' chunks' bytes' fsize' extracted' doubled' sbs' where b:
    "num_mul fps duration_seconds = Inr product'" "py_int product' = Inr frames'"
    "int_floordiv (frames' + c2 - 1) c2 = Inr chunks'"
    "int_mul_float (width * height * 3) (round_double 1.2) = Inr bytes'"
    "float_div_int bytes' (1024 * 1024) = Inr fsize'"
    "float_mul_int fsize' c2 = Inr extracted'"
    "float_mul_int fsize' 2 = Inr doubled'"
    "float_mul_int doubled' c2 = Inr sbs'"
    "total_chunks r2 = chunks'"
    "peak_chunk_mb r2 = float_add (float_add extracted' sbs') (float_mul sbs' (round_double 0.1))"
    by (elim chunked_approach_InrE) simp
  from a(1) b(1) have "product' = product" by simp
  with a(2) b(2) have fr: "frames' = frames" by simp
  from a(4) b(4) have "bytes' = bytes" by simp
  with a(5) b(5) have fs: "fsize' = fsize" by simp
  with a(7) b(7) have db: "doubled' = doubled" by simp
  have c1: "1 \<le> c1" using assms(7,8) by simp
  \<comment> \<open>the number of chunks\<close>
  have "num_nonneg product \<or> product = PyFloat PInf"
    using assms(5,6) a(1) by (rule num_mul_nonneg)
  with a(2) have n: "0 \<le> frames" using py_int_nonneg_is_floor by blast
  have "chunks = (frames + c1 - 1) div c1" "chunks' = (frames + c2 - 1) div c2"
    using a(3) b(3) fr by (simp_all add: int_floordiv_Inr)
  then have chunks: "chunks \<le> chunks'"
    using ceiling_division_antimono [OF n assms(7,8)] by simp
  \<comment> \<open>the peak of one chunk\<close>
  have "0 < width * height * 3" using assms(3,4) by simp
  with a(4,5) have nonneg: "float_nonneg fsize"
    by (cases rule: frame_size_cases) simp_all
  have d: "doubled = float_mul fsize (Fl 2)"
    using a(7) by (simp add: float_mul_int_def float_of_int_2 ebind_Inr)
  from a(6) c1 obtain t1 where t1: "t1 = round_unbounded (of_int c1)" "1 \<le> t1"
    "float_of_int c1 = Inr (Fl t1)" "extracted = float_mul fsize (Fl t1)"
    by (rule chunk_float)
  from b(6) assms(7) obtain t2 where t2: "t2 = round_unbounded (of_int c2)" "1 \<le> t2"
    "float_of_int c2 = Inr (Fl t2)" "extracted' = float_mul fsize (Fl t2)"
    unfolding fs by (rule chunk_float)
  have s1: "sbs = float_mul (float_mul fsize (Fl 2)) (Fl t1)"
    using a(8) t1(3) d by (simp add: float_mul_int_def ebind_Inr)
  have s2: "sbs' = float_mul (float_mul fsize (Fl 2)) (Fl t2)"
    using b(8) t2(3) d db by (simp add: float_mul_int_def ebind_Inr)
  have "real_of_int c2 \<le> real_of_int c1" using assms(8) by simp
  then have "t2 \<le> t1" unfolding t1(1) t2(1) by (rule round_unbounded_mono)
  with nonneg t2(2) have "float_le (peak_chunk_mb r2) (peak_chunk_mb r1)"
    unfolding a(10) b(10) s1 s2 t1(4) t2(4) by (rule peak_chunk_mono)
  with chunks a(9) b(9) show ?thesis by simp
qed

theorem smaller_chunks_lower_peak_more_chunks_witness:
  "estimate_storage_chunked_approach 1920 1080 (PyInt 30) (PyInt 600) 100 =
     Inr \<lparr>total_frames = 18000, frame_size_mb = Fl (3645 / 512), total_peak_mb = Fl (820125 / 16),
           total_chunks = 180, chunk_size = 100, peak_chunk_mb = Fl (18225 / 8),
           max_chunk_videos_mb = Fl (820125 / 32)\<rparr> \<and>
   estimate_storage_chunked_approach 1920 1080 (PyInt 30) (PyInt 600) 50 =
     Inr \<lparr>total_frames = 18000, frame_size_mb = Fl (3645 / 512), total_peak_mb = Fl (820125 / 16),
           total_chunks = 360, chunk_size = 50, peak_chunk_mb = Fl (18225 / 16),
           max_chunk_videos_mb = Fl (820125 / 32)\<rparr> \<and>
   (0::int) < 1920 \<and> (0::int) < 1080 \<and> num_nonneg (PyInt 30) \<and> num_nonneg (PyInt 600) \<and>
   (1::int) \<le> 50 \<and> (50::int) \<le> 100 \<and>
   float_le (Fl (18225 / 16)) (Fl (18225 / 8)) \<and> (180::int) \<le> 360"
  using smaller_chunks_lower_peak_more_chunks
    [OF chunked_100_1080p_10min chunked_50_1080p_10min]
    chunked_100_1080p_10min chunked_50_1080p_10min
  by simp

text \<open>
  C7. Both estimators take \<open>total_frames = int(fps * duration_seconds)\<close>: the product as
  Python computes it, truncated. For a non-negative frame rate and duration that is the
  floor of the product; for frame rate 30 and duration 600, given as integers or as
  floats, it is 18000.
\<close>

theorem total_frames_is_floor_of_product:
  "(estimate_storage_old_approach width height fps duration_seconds = Inr r \<longrightarrow>
      (\<exists>product. num_mul fps duration_seconds = Inr product \<and>
         py_int product = Inr (total_frames r) \<and>
         (num_nonneg fps \<and> num_nonneg duration_seconds \<longrightarrow>
            floor_num product = Some (total_frames r)) \<and>
         (num_is fps 30 \<and> num_is duration_seconds 600 \<longrightarrow> total_frames r = 18000))) \<and>
   (estimate_storage_chunked_approach width height fps duration_seconds c = Inr r' \<longrightarrow>
      (\<exists>product. num_mul fps duration_seconds = Inr product \<and>
         py_int product = Inr (total_frames r') \<and>
         (num_nonneg fps \<and> num_nonneg duration_seconds \<longrightarrow>
            floor_num product = Some (total_frames r')) \<and>
         (num_is fps 30 \<and> num_is duration_seconds 600 \<longrightarrow> total_frames r' = 18000)))"
proof (intro conjI impI)
  assume "estimate_storage_old_approach width height fps duration_seconds = Inr r"
  then obtain product where p: "num_mul fps duration_seconds = Inr product"
    "py_int product = Inr (total_frames r)"
    by (elim old_approach_InrE) simp
  with frames_of_product [OF p] show "\<exists>product. num_mul fps duration_seconds = Inr product \<and>
         py_int product = Inr (total_frames r) \<and>
         (num_nonneg fps \<and> num_nonneg duration_seconds \<longrightarrow>
            floor_num product = Some (total_frames r)) \<and>
         (num_is fps 30 \<and> num_is duration_seconds 600 \<longrightarrow> total_frames r = 18000)"
    by blast
next
  assume "estimate_storage_chunked_approach width height fps duration_seconds c = Inr r'"
  then obtain product where p: "num_mul fps duration_seconds = Inr product"
    "py_int product = Inr (total_frames r')"
    by (elim chunked_approach_InrE) simp
  with frames_of_product [OF p] show "\<exists>product. num_mul fps duration_seconds = Inr product \<and>
         py_int product = Inr (total_frames r') \<and>
         (num_nonneg fps \<and> num_nonneg duration_seconds \<longrightarrow>
            floor_num product = Some (total_frames r')) \<and>
         (num_is fps 30 \<and> num_is duration_seconds 600 \<longrightarrow> total_frames r' = 18000)"
    by blast
qed

theorem total_frames_is_floor_of_product_witness:
  "map_sum id total_frames (estimate_storage_old_approach 1920 1080 (PyFloat (Fl 30)) (PyInt 600)) = Inr 18000 \<and>
   map_sum id total_frames (estimate_storage_chunked_approach 1920 1080 (PyFloat (Fl 30)) (PyInt 600) 100) = Inr 18000 \<and>
   num_nonneg (PyFloat (Fl 30)) \<and> num_nonneg (PyInt 600) \<and>
   num_is (PyFloat (Fl 30)) 30 \<and> num_is (PyInt 600) 600 \<and>
   num_mul (PyFloat (Fl 30)) (PyInt 600) = Inr (PyFloat (Fl 18000)) \<and>
   floor_num (PyFloat (Fl 18000)) = Some 18000 \<and>
   map_sum id total_frames (estimate_storage_old_approach 1920 1080 (PyFloat (Fl (47 / 2))) (PyInt 3)) = Inr 70 \<and>
   map_sum id total_frames (estimate_storage_chunked_approach 1920 1080 (PyFloat (Fl (47 / 2))) (PyInt 3) 100) = Inr 70 \<and>
   num_nonneg (PyFloat (Fl (47 / 2))) \<and> num_nonneg (PyInt 3) \<and>
   num_mul (PyFloat (Fl (47 / 2))) (PyInt 3) = Inr (PyFloat (Fl (141 / 2))) \<and>
   floor_num (PyFloat (Fl (141 / 2))) = Some 70"
proof -
  have m: "num_mul (PyFloat (Fl 30)) (PyInt 600) = Inr (PyFloat (Fl 18000))"
    "num_mul (PyFloat (Fl (47 / 2))) (PyInt 3) = Inr (PyFloat (Fl (141 / 2)))"
    by (simp_all add: op_eval fl_eval cong: ebind_weak_cong let_weak_cong)
  from total_frames_is_floor_of_product
    [of 1920 1080 "PyFloat (Fl 30)" "PyInt 600" _ 100] old_30_0_fps chunked_30_0_fps
    total_frames_is_floor_of_product
    [of 1920 1080 "PyFloat (Fl (47 / 2))" "PyInt 3" _ 100] old_23_5_fps chunked_23_5_fps m
  show ?thesis by simp
qed

text \<open>
  C8. For every chunk size of at least 1 the chunked estimator never raises
  \<^verbatim>\<open>ZeroDivisionError\<close>, and it returns whenever the frame count is defined and the frame
  count, \<open>width * height * 3\<close> and the chunk size are at most \<open>2 ^ 1023\<close> in magnitude.
  It is not free of errors beyond that: an integer operand outside the float range, or
  an infinite product of frame rate and duration, raises \<^verbatim>\<open>OverflowError\<close>.
\<close>

theorem chunked_never_divides_by_zero:
  "1 \<le> c \<longrightarrow>
     estimate_storage_chunked_approach width height fps duration_seconds c \<noteq> Inl ZeroDivisionError \<and>
     (num_mul fps duration_seconds = Inr product \<and> py_int product = Inr frames \<and>
      \<bar>frames\<bar> \<le> 2 ^ 1023 \<and> \<bar>width * height * 3\<bar> \<le> 2 ^ 1023 \<and> c \<le> 2 ^ 1023 \<longrightarrow>
      (\<exists>r. estimate_storage_chunked_approach width height fps duration_seconds c = Inr r))"
proof (intro impI conjI)
  assume c: "1 \<le> c"
  then show "estimate_storage_chunked_approach width height fps duration_seconds c \<noteq> Inl ZeroDivisionError"
    by (intro chunked_not_zero_division) simp
next
  assume c: "1 \<le> c"
  assume "num_mul fps duration_seconds = Inr product \<and> py_int product = Inr frames \<and>
      \<bar>frames\<bar> \<le> 2 ^ 1023 \<and> \<bar>width * height * 3\<bar> \<le> 2 ^ 1023 \<and> c \<le> 2 ^ 1023"
  then have p: "num_mul fps duration_seconds = Inr product" "py_int product = Inr frames"
    and b: "\<bar>frames\<bar> \<le> 2 ^ 1023" "\<bar>width * height * 3\<bar> \<le> 2 ^ 1023" "c \<le> 2 ^ 1023"
    by simp_all
  let ?chunks = "(frames + c - 1) div c"
  have d: "int_floordiv (frames + c - 1) c = Inr ?chunks" using c by (simp add: int_floordiv_def)
  have cb: "\<bar>c\<bar> \<le> 2 ^ 1023" using c b(3) by simp
  have kb: "\<bar>?chunks\<bar> \<le> 2 ^ 1023" using ceiling_division_abs [OF c, of frames] b(1) by linarith
  have two: "\<bar>2::int\<bar> \<le> 2 ^ 1023" by simp
  obtain bytes where 1: "int_mul_float (width * height * 3) (round_double 1.2) = Inr bytes"
    using int_mul_float_returns [OF b(2)] by blast
  obtain fsize where 2: "float_div_int bytes (1024 * 1024) = Inr fsize"
    using float_div_mebibyte_returns [of bytes] by auto
  obtain extracted where 3: "float_mul_int fsize c = Inr extracted"
    using float_mul_int_returns [OF cb] by blast
  obtain doubled where 4: "float_mul_int fsize 2 = Inr doubled"
    using float_mul_int_returns [OF two] by blast
  obtain sbs where 5: "float_mul_int doubled c = Inr sbs"
    using float_mul_int_returns [OF cb] by blast
  obtain videos where 6: "float_mul_int (float_mul sbs (round_double 0.1)) ?chunks = Inr videos"
    using float_mul_int_returns [OF kb] by blast
  show "\<exists>r. estimate_storage_chunked_approach width height fps duration_seconds c = Inr r"
    unfolding estimate_storage_chunked_approach_def
    by (simp only: p d 1 2 3 4 5 6 ebind_Inr Let_def) blast
qed

theorem chunked_never_divides_by_zero_witness:
  "(1::int) \<le> 100 \<and>
   estimate_storage_chunked_approach 1920 1080 (PyInt 30) (PyInt 600) 100 \<noteq> Inl ZeroDivisionError \<and>
   num_mul (PyInt 30) (PyInt 600) = Inr (PyInt 18000) \<and> py_int (PyInt 18000) = Inr 18000 \<and>
   \<bar>18000 :: int\<bar> \<le> 2 ^ 1023 \<and> \<bar>1920 * 1080 * 3 :: int\<bar> \<le> 2 ^ 1023 \<and> (100::int) \<le> 2 ^ 1023 \<and>
   (\<exists>r. estimate_storage_chunked_approach 1920 1080 (PyInt 30) (PyInt 600) 100 = Inr r)"
  using chunked_never_divides_by_zero [of 100 1920 1080 "PyInt 30" "PyInt 600" "PyInt 18000" 18000]
  by simp

theorem chunked_raises_overflow_error:
  "(1::int) \<le> 2 ^ 1024 \<and>
   estimate_storage_chunked_approach 1920 1080 (PyInt 30) (PyInt 600) (2 ^ 1024) = Inl OverflowError \<and>
   (1::int) \<le> 100 \<and>
   estimate_storage_chunked_approach 1920 1080
     (PyFloat (Fl (2 powi 1000))) (PyFloat (Fl (2 powi 1000))) 100 = Inl OverflowError"
proof -
  have "(1::int) \<le> 2 ^ 1024" "(1::int) \<le> 100" by simp_all
  then show ?thesis
    using chunked_huge_chunk_size chunked_overflowing_product by (intro conjI)
qed

text \<open>
  C9. Two returning calls of the chunked estimator that agree on width, height and chunk
  size return the same \<open>frame_size_mb\<close>, \<open>chunk_size\<close> and \<open>peak_chunk_mb\<close>, whatever the
  frame rates and durations.
\<close>

theorem chunk_local_fields_ignore_duration:
  assumes "estimate_storage_chunked_approach width height fps duration_seconds c = Inr r"
    and "estimate_storage_chunked_approach width height fps' duration_seconds' c = Inr r'"
  shows "frame_size_mb r = frame_size_mb r' \<and> chunk_size r = chunk_size r' \<and>
         peak_chunk_mb r = peak_chunk_mb r'"
proof -
  from assms(1) obtain bytes fsize extracted doubled sbs where a:
    "int_mul_float (width * height * 3) (round_double 1.2) = Inr bytes"
    "float_div_int bytes (1024 * 1024) = Inr fsize"
    "float_mul_int fsize c = Inr extracted"
    "float_mul_int fsize 2 = Inr doubled"
    "float_mul_int doubled c = Inr sbs"
    "frame_size_mb r = fsize" "chunk_size r = c"
    "peak_chunk_mb r = float_add (float_add extracted sbs) (float_mul sbs (round_double 0.1))"
    by (elim chunked_approach_InrE) simp
  from assms(2) obtain bytes' fsize' extracted' doubled' sbs' where b:
    "int_mul_float (width * height * 3) (round_double 1.2) = Inr bytes'"
    "float_div_int bytes' (1024 * 1024) = Inr fsize'"
    "float_mul_int fsize' c = Inr extracted'"
    "float_mul_int fsize' 2 = Inr doubled'"
    "float_mul_int doubled' c = Inr sbs'"
    "frame_size_mb r' = fsize'" "chunk_size r' = c"
    "peak_chunk_mb r' = float_add (float_add extracted' sbs') (float_mul sbs' (round_double 0.1))"
    by (elim chunked_approach_InrE) simp
  from a(1) b(1) have "bytes' = bytes" by simp
  with a(2) b(2) have "fsize' = fsize" by simp
  with a(3,4) b(3,4) have "extracted' = extracted" "doubled' = doubled" by simp_all
  with a(5) b(5) have "sbs' = sbs" by simp
  with \<open>fsize' = fsize\<close> \<open>extracted' = extracted\<close> a b show ?thesis by simp
qed

theorem chunk_local_fields_ignore_duration_witness:
  "estimate_storage_chunked_approach 3840 2160 (PyInt 30) (PyInt 600) 100 =
     Inr \<lparr>total_frames = 18000, frame_size_mb = Fl (3645 / 128), total_peak_mb = Fl (820125 / 4),
           total_chunks = 180, chunk_size = 100, peak_chunk_mb = Fl (18225 / 2),
           max_chunk_videos_mb = Fl (820125 / 8)\<rparr> \<and>
   estimate_storage_chunked_approach 3840 2160 (PyInt 60) (PyInt 600) 100 =
     Inr \<lparr>total_frames = 36000, frame_size_mb = Fl (3645 / 128), total_peak_mb = Fl (820125 / 2),
           total_chunks = 360, chunk_size = 100, peak_chunk_mb = Fl (18225 / 2),
           max_chunk_videos_mb = Fl (820125 / 4)\<rparr> \<and>
   map_sum id frame_size_mb (estimate_storage_chunked_approach 3840 2160 (PyInt 30) (PyInt 600) 100) =
     map_sum id frame_size_mb (estimate_storage_chunked_approach 3840 2160 (PyInt 60) (PyInt 600) 100) \<and>
   map_sum id peak_chunk_mb (estimate_storage_chunked_approach 3840 2160 (PyInt 30) (PyInt 600) 100) =
     map_sum id peak_chunk_mb (estimate_storage_chunked_approach 3840 2160 (PyInt 60) (PyInt 600) 100)"
  using chunk_local_fields_ignore_duration
    [OF chunked_100_4k_30fps_10min chunked_100_4k_60fps_10min]
    chunked_100_4k_30fps_10min chunked_100_4k_60fps_10min
  by simp

text \<open>
  C10. When the frame count is zero, for positive width and height and a chunk size of at
  least 1, a returning call of the chunked estimator reports no chunk and a strictly
  positive \<open>total_peak_mb\<close>, which is \<open>peak_chunk_mb\<close>; the old-approach estimator returns for
  the same profile. When \<open>peak_chunk_mb\<close> is finite, \<open>max_chunk_videos_mb\<close> is 0, the old
  \<open>total_peak_mb\<close> is 0, and \<open>peak_chunk_mb\<close>, the rounded sum of three rounded terms, lies
  within a relative error of \<open>2\<^sup>-\<^sup>5\<^sup>0\<close> of \<open>3.2 * frame_size_mb * chunk_size\<close>. It need not
  equal that product: for 1366x768 and chunk size 1 it differs from the float product in
  every operand order. When the peak overflows, \<open>max_chunk_videos_mb\<close> is
  \<open>inf * 0\<close>, a NaN.
\<close>

theorem no_frames_chunk_peak_only:
  assumes "estimate_storage_chunked_approach width height fps duration_seconds c = Inr r"
    and "total_frames r = 0" "0 < width" "0 < height" "1 \<le> c"
  shows "total_chunks r = 0 \<and> total_peak_mb r = peak_chunk_mb r \<and>
         float_gt (total_peak_mb r) (Fl 0) \<and>
         (\<exists>old. estimate_storage_old_approach width height fps duration_seconds = Inr old \<and>
            total_frames old = 0 \<and>
            (peak_chunk_mb r \<noteq> PInf \<longrightarrow>
               max_chunk_videos_mb r = Fl 0 \<and> total_peak_mb old = Fl 0 \<and>
               (\<exists>q p. frame_size_mb r = Fl q \<and> peak_chunk_mb r = Fl p \<and>
                  \<bar>p - 3.2 * q * real_of_int c\<bar> \<le> 3.2 * q * real_of_int c / 2 ^ 50)))"
proof -
  from assms(1) obtain product frames chunks bytes fsize extracted doubled sbs videos where h:
    "num_mul fps duration_seconds = Inr product" "py_int product = Inr frames"
    "int_floordiv (frames + c - 1) c = Inr chunks"
    "int_mul_float (width * height * 3) (round_double 1.2) = Inr bytes"
    "float_div_int bytes (1024 * 1024) = Inr fsize"
    "float_mul_int fsize c = Inr extracted"
    "float_mul_int fsize 2 = Inr doubled"
    "float_mul_int doubled c = Inr sbs"
    "float_mul_int (float_mul sbs (round_double 0.1)) chunks = Inr videos"
    and r: "total_frames r = frames" "frame_size_mb r = fsize" "total_chunks r = chunks"
    "max_chunk_videos_mb r = videos"
    "peak_chunk_mb r = float_add (float_add extracted sbs) (float_mul sbs (round_double 0.1))"
    "total_peak_mb r =
       py_max (float_add (float_add extracted sbs) (float_mul sbs (round_double 0.1)))
         (float_add videos videos)"
    by (elim chunked_approach_InrE) simp
  let ?m = "(2::real) powi (- 20)"
  have m: "0 < ?m" by simp
  have fr: "frames = 0" using r(1) assms(2) by simp
  have chunks: "chunks = 0" using assms(5) h(3) unfolding fr by (rule zero_chunks)
  \<comment> \<open>the float values\<close>
  from h(6) assms(5) obtain t where t: "t = round_unbounded (of_int c)" "1 \<le> t"
    "float_of_int c = Inr (Fl t)" "extracted = float_mul fsize (Fl t)"
    by (rule chunk_float)
  have d: "doubled = float_mul fsize (Fl 2)"
    using h(7) by (simp add: float_mul_int_def float_of_int_2 ebind_Inr)
  have s: "sbs = float_mul (float_mul fsize (Fl 2)) (Fl t)"
    using h(8) t(3) d by (simp add: float_mul_int_def ebind_Inr)
  let ?video = "float_mul sbs (round_double 0.1)"
  let ?peak = "float_add (float_add extracted sbs) ?video"
  have v: "videos = float_mul ?video (Fl 0)"
    using h(9) unfolding chunks by (simp add: float_mul_int_def float_of_int_0 ebind_Inr)
  have n: "0 < width * height * 3" using assms(3,4) by simp
  from h(4,5) have low: "float_le (Fl ?m) fsize"
  proof (cases rule: frame_size_cases)
    case (finite q)
    then have "?m \<le> q" using n m by auto
    then show ?thesis using finite(1) by (simp add: float_le_def)
  next
    case pinf
    then show ?thesis by (simp add: float_le_def)
  next
    case ninf
    then show ?thesis using n by simp
  qed
  have fn: "float_nonneg fsize" using low m by (rule float_le_positive)
  have tpos: "0 < t" using t(2) by simp
  have en: "float_nonneg extracted" unfolding t(4) using fn tpos by (rule float_mul_pos_nonneg)
  have "float_nonneg (float_mul fsize (Fl 2))" using fn by (rule float_mul_pos_nonneg) simp
  then have sn: "float_nonneg sbs" unfolding s using tpos by (rule float_mul_pos_nonneg)
  have vn: "float_nonneg ?video" unfolding literal_0_1 using sn by (rule float_mul_pos_nonneg) simp
  have an: "float_nonneg (float_add extracted sbs)" using en sn by (rule float_add_nonneg)
  have "float_le (Fl ?m) ?peak" unfolding t(4) s using low t(2) by (rule peak_chunk_lower_bound)
  then have ppos: "float_gt ?peak (Fl 0)" and pn: "float_nonneg ?peak"
    using m by (rule float_le_positive)+
  have "videos = Fl 0 \<or> videos = NaN" unfolding v using vn by (rule float_mul_zero)
  with pn have total: "py_max ?peak (float_add videos videos) = ?peak" by (rule py_max_nonneg_zero)
  \<comment> \<open>the old estimator on the same profile\<close>
  let ?old = "\<lparr>total_frames = 0, frame_size_mb = fsize,
      total_peak_mb = float_add (float_mul fsize (Fl 0)) (float_mul doubled (Fl 0)),
      extracted_frames_mb = float_mul fsize (Fl 0), sbs_frames_mb = float_mul doubled (Fl 0)\<rparr>"
  have z: "float_mul_int fsize 0 = Inr (float_mul fsize (Fl 0))"
    "float_mul_int doubled 0 = Inr (float_mul doubled (Fl 0))"
    by (simp_all add: float_mul_int_def float_of_int_0 ebind_Inr)
  have old: "estimate_storage_old_approach width height fps duration_seconds = Inr ?old"
    unfolding estimate_storage_old_approach_def
    using h(2) unfolding fr by (simp only: h(1,4,5,7) z ebind_Inr Let_def)
  \<comment> \<open>when nothing overflows\<close>
  have finite: "max_chunk_videos_mb r = Fl 0 \<and> total_peak_mb ?old = Fl 0 \<and>
      (\<exists>q p. frame_size_mb r = Fl q \<and> peak_chunk_mb r = Fl p \<and>
         \<bar>p - 3.2 * q * real_of_int c\<bar> \<le> 3.2 * q * real_of_int c / 2 ^ 50)"
    if np: "?peak \<noteq> PInf"
  proof -
    from np an vn have "float_add extracted sbs \<noteq> PInf \<and> ?video \<noteq> PInf"
      by (rule float_add_not_PInf)
    then have a: "float_add extracted sbs \<noteq> PInf" and vf: "?video \<noteq> PInf" by simp_all
    from a en sn have "extracted \<noteq> PInf \<and> sbs \<noteq> PInf" by (rule float_add_not_PInf)
    then have "float_mul fsize (Fl t) \<noteq> PInf" using t(4) by simp
    then have ff: "fsize \<noteq> PInf" using fn tpos by (rule float_mul_not_PInf)
    have mcv: "videos = Fl 0" unfolding v using vn vf by (rule float_mul_zero)
    from h(4,5) obtain q where q: "fsize = Fl q" "round_unbounded q = q"
      "q = 0 \<or> ?m \<le> \<bar>q\<bar>" "\<bar>q\<bar> \<le> 2 powi 1004" "0 < q"
      using ff n by (cases rule: frame_size_cases) simp_all
    have q': "?m \<le> q" "q \<le> 2 powi 1004" using q(3,4,5) by auto
    have "doubled = Fl (2 * q)" using d q(1) frame_size_doubled [OF q(2,3,4)] by simp
    then have oldpeak: "total_peak_mb ?old = Fl 0" using q(1) by (simp add: round_double_0)
    from pn np obtain p where p: "?peak = Fl p" "0 \<le> p" by (rule float_nonneg_not_PInf)
    have "\<bar>p - 3.2 * q * real_of_int c\<bar> \<le> 3.2 * q * real_of_int c / 2 ^ 50"
      using q(2) q' assms(5) t(1) p(1) unfolding t(4) s q(1) by (rule peak_chunk_error)
    with mcv oldpeak p(1) q(1) r show ?thesis by simp
  qed
  have "total_chunks r = 0" using r(3) chunks by simp
  moreover have "total_peak_mb r = peak_chunk_mb r" using r(5,6) total by simp
  moreover have "float_gt (total_peak_mb r) (Fl 0)" using r(6) total ppos by simp
  moreover have "\<exists>old. estimate_storage_old_approach width height fps duration_seconds = Inr old \<and>
            total_frames old = 0 \<and>
            (peak_chunk_mb r \<noteq> PInf \<longrightarrow>
               max_chunk_videos_mb r = Fl 0 \<and> total_peak_mb old = Fl 0 \<and>
               (\<exists>q p. frame_size_mb r = Fl q \<and> peak_chunk_mb r = Fl p \<and>
                  \<bar>p - 3.2 * q * real_of_int c\<bar> \<le> 3.2 * q * real_of_int c / 2 ^ 50))"
    using old finite unfolding r(5) by (intro exI [of _ ?old]) simp
  ultimately show ?thesis by simp
qed

theorem no_frames_chunk_peak_only_witness:
  "estimate_storage_chunked_approach 1366 768 (PyFloat (Fl (1 / 2))) (PyInt 1) 1 =
     Inr \<lparr>total_frames = 0, frame_size_mb = Fl (4055218785563443 / 1125899906842624),
           total_peak_mb = Fl (1622087514225377 / 140737488355328), total_chunks = 0,
           chunk_size = 1, peak_chunk_mb = Fl (1622087514225377 / 140737488355328),
           max_chunk_videos_mb = Fl 0\<rparr> \<and>
   (0::int) < 1366 \<and> (0::int) < 768 \<and> (1::int) \<le> 1 \<and>
   estimate_storage_old_approach 1366 768 (PyFloat (Fl (1 / 2))) (PyInt 1) =
     Inr \<lparr>total_frames = 0, frame_size_mb = Fl (4055218785563443 / 1125899906842624),
           total_peak_mb = Fl 0, extracted_frames_mb = Fl 0, sbs_frames_mb = Fl 0\<rparr> \<and>
   float_gt (Fl (1622087514225377 / 140737488355328)) (Fl 0) \<and> Fl (1622087514225377 / 140737488355328) \<noteq> PInf \<and>
   \<bar>1622087514225377 / 140737488355328 - 3.2 * (4055218785563443 / 1125899906842624) * real_of_int 1\<bar>
     \<le> 3.2 * (4055218785563443 / 1125899906842624) * real_of_int 1 / 2 ^ 50"
  using no_frames_chunk_peak_only [OF chunked_no_frames_1366]
    chunked_no_frames_1366 old_no_frames_1366
  by simp

theorem no_frames_peak_is_not_the_product:
  "estimate_storage_chunked_approach 1366 768 (PyFloat (Fl (1 / 2))) (PyInt 1) 1 =
     Inr \<lparr>total_frames = 0, frame_size_mb = Fl (4055218785563443 / 1125899906842624),
           total_peak_mb = Fl (1622087514225377 / 140737488355328), total_chunks = 0,
           chunk_size = 1, peak_chunk_mb = Fl (1622087514225377 / 140737488355328),
           max_chunk_videos_mb = Fl 0\<rparr> \<and>
   float_of_int 1 = Inr (Fl 1) \<and>
   float_mul (float_mul (round_double 3.2) (Fl (4055218785563443 / 1125899906842624))) (Fl 1) = Fl (6488350056901509 / 562949953421312) \<and>
   float_mul (round_double 3.2) (float_mul (Fl (4055218785563443 / 1125899906842624)) (Fl 1)) = Fl (6488350056901509 / 562949953421312) \<and>
   float_mul (float_mul (round_double 3.2) (Fl 1)) (Fl (4055218785563443 / 1125899906842624)) = Fl (6488350056901509 / 562949953421312) \<and>
   Fl (6488350056901509 / 562949953421312) \<noteq> Fl (1622087514225377 / 140737488355328) \<and>
   (1622087514225377 / 140737488355328 :: real) \<noteq> 3.2 * (4055218785563443 / 1125899906842624) * 1 \<and>
   estimate_storage_chunked_approach 1920 1080 (PyFloat (Fl (1 / 2))) (PyInt 1) (2 ^ 1023) =
     Inr \<lparr>total_frames = 0, frame_size_mb = Fl (3645 / 512),
           total_peak_mb = PInf, total_chunks = 0,
           chunk_size = 2 ^ 1023, peak_chunk_mb = PInf,
           max_chunk_videos_mb = NaN\<rparr> \<and>
   NaN \<noteq> Fl 0"
proof -
  have "float_of_int 1 = Inr (Fl 1)"
    "float_mul (float_mul (round_double 3.2) (Fl (4055218785563443 / 1125899906842624))) (Fl 1) = Fl (6488350056901509 / 562949953421312)"
    "float_mul (round_double 3.2) (float_mul (Fl (4055218785563443 / 1125899906842624)) (Fl 1)) = Fl (6488350056901509 / 562949953421312)"
    "float_mul (float_mul (round_double 3.2) (Fl 1)) (Fl (4055218785563443 / 1125899906842624)) = Fl (6488350056901509 / 562949953421312)"
    by (simp_all add: op_eval fl_eval cong: let_weak_cong)
  moreover have "Fl (6488350056901509 / 562949953421312) \<noteq> Fl (1622087514225377 / 140737488355328)" "(1622087514225377 / 140737488355328 :: real) \<noteq> 3.2 * (4055218785563443 / 1125899906842624) * 1"
    "NaN \<noteq> Fl 0"
    by simp_all
  ultimately show ?thesis
    using chunked_no_frames_1366 chunked_no_frames_huge_chunk by (intro conjI)
qed

end
